theory Spec2Isabelle
  imports Complex_Main "HOL-Library.Monad_Syntax"
begin

section \<open>The match engine of the SWOT strategy mission\<close>

text \<open>
  The engine lives in the component \<^verbatim>\<open>UserGameView\<close> of \<^verbatim>\<open>App.tsx\<close>: a team's client
  holds the shared room (teams and matches), its own team id and some local state, and
  every handler computes a new room that replaces the shared one. The handlers are
  embedded as functions from the room (and the local state they read) to the room they
  write. A handler that would throw (a property read on \<^verbatim>\<open>undefined\<close>) returns
  \<open>None\<close>; a handler that returns early returns the room it was given.
\<close>

subsection \<open>Data model\<close>

text \<open>
  JavaScript numbers that only ever hold integers (cards, chips, rounds, scores, pot and
  carry-over) are \<open>int\<close>. A team's winnings are halved on a final-round draw, so they are
  \<open>rat\<close>: every value the engine computes is an integer or a half, which binary floating
  point represents exactly. On a number \<^verbatim>\<open>x || 0\<close> is \<open>x\<close>, and on a list or an
  object \<^verbatim>\<open>x || []\<close> and \<^verbatim>\<open>x || {}\<close> are \<open>x\<close> with the empty value standing for a
  missing one, so these defaults do not show in the embedding.
\<close>

datatype round_status = READY | DECISION | SHOWDOWN | RESULT | FINISHED

datatype room_status = ROOM_PREPARING | ROOM_PLAYING | ROOM_FINISHED

datatype result_code = A_WON | B_WON | DRAW | A_FOLDED | B_FOLDED

datatype action = FOLD | CALL

record RoundStrategy =
  round_s :: int
  card_s :: int
  chips :: int

record Team =
  id_t :: string
  name_t :: string
  isReady :: bool
  winnings :: rat
  members :: "string list"
  strategy :: "RoundStrategy list"

record RoundResult =
  round_r :: int
  teamACard :: int
  teamBCard :: int
  teamAChips :: int
  teamBChips :: int
  result :: result_code
  potWon :: int

record LastAction =
  teamId_l :: string
  action_l :: action

record Match =
  id_m :: string
  teamAId :: string
  teamBId :: string
  teamAScore :: int
  teamBScore :: int
  currentRound :: int
  roundStatus :: round_status
  turnOwner :: "string option"
  pot :: int
  carryOver :: int
  history :: "RoundResult list"
  lastRoundResult :: "RoundResult option"
  resultConfirmed :: "string \<rightharpoonup> bool"
  lastAction :: "LastAction option"

record Room =
  teams :: "Team list"
  matches :: "Match list"
  status :: room_status

text \<open>
  Modelled from the spec: the constants \<^verbatim>\<open>TOTAL_ROUNDS\<close> and \<^verbatim>\<open>TOTAL_CHIPS\<close> are imported
  from \<^verbatim>\<open>./types\<close>, which is not among the source files; the specification fixes ten
  rounds and a chip budget of 30.
\<close>

definition TOTAL_ROUNDS :: int where
  "TOTAL_ROUNDS = 10"

definition TOTAL_CHIPS :: int where
  "TOTAL_CHIPS = 30"

subsection \<open>Array reads\<close>

text \<open>
  \<^verbatim>\<open>xs[i]\<close> is \<^verbatim>\<open>undefined\<close> outside the array, and reading a field of it throws.
\<close>

definition at_index :: "'a list \<Rightarrow> int \<Rightarrow> 'a option" where
  "at_index xs i = (if 0 \<le> i \<and> nat i < length xs then Some (xs ! nat i) else None)"

fun findIndex :: "('a \<Rightarrow> bool) \<Rightarrow> 'a list \<Rightarrow> nat option" where
  "findIndex P [] = None"
| "findIndex P (x # xs) = (if P x then Some 0 else map_option Suc (findIndex P xs))"

text \<open>A truthy entry of a map from team ids to booleans (a missing entry is falsy).\<close>

definition truthy :: "bool option \<Rightarrow> bool" where
  "truthy v = (v = Some True)"

subsection \<open>What the component derives from its props\<close>

definition team :: "Room \<Rightarrow> string \<Rightarrow> Team option" where
  "team room teamId = find (\<lambda>t. id_t t = teamId) (teams room)"

definition myMatchIdx :: "Room \<Rightarrow> string \<Rightarrow> nat option" where
  "myMatchIdx room teamId =
     findIndex (\<lambda>m. teamAId m = teamId \<or> teamBId m = teamId) (matches room)"

definition myMatch :: "Room \<Rightarrow> string \<Rightarrow> Match option" where
  "myMatch room teamId = map_option (\<lambda>i. matches room ! i) (myMatchIdx room teamId)"

definition isTeamA :: "Room \<Rightarrow> string \<Rightarrow> bool" where
  "isTeamA room teamId =
     (case myMatch room teamId of None \<Rightarrow> False | Some m \<Rightarrow> teamAId m = teamId)"

definition opponentId :: "Room \<Rightarrow> string \<Rightarrow> string option" where
  "opponentId room teamId =
     map_option (\<lambda>m. if isTeamA room teamId then teamBId m else teamAId m)
       (myMatch room teamId)"

definition opponentTeam :: "Room \<Rightarrow> string \<Rightarrow> Team option" where
  "opponentTeam room teamId =
     (case opponentId room teamId of
        None \<Rightarrow> None
      | Some oid \<Rightarrow> find (\<lambda>t. id_t t = oid) (teams room))"

definition isMyTurn :: "Room \<Rightarrow> string \<Rightarrow> bool" where
  "isMyTurn room teamId =
     (case myMatch room teamId of None \<Rightarrow> False | Some m \<Rightarrow> turnOwner m = Some teamId)"

subsection \<open>Writing the room back\<close>

text \<open>
  Both writers replace the match at \<^verbatim>\<open>myMatchIdx\<close> by \<^verbatim>\<open>{ ...myMatch, ...updates }\<close>;
  the partial record of updates is a function on the match.
\<close>

definition updateMatchState :: "Room \<Rightarrow> string \<Rightarrow> (Match \<Rightarrow> Match) \<Rightarrow> Room option" where
  "updateMatchState room teamId updates = do {
     idx \<leftarrow> myMatchIdx room teamId;
     m \<leftarrow> myMatch room teamId;
     Some (room\<lparr>matches := (matches room)[idx := updates m]\<rparr>)
   }"

definition updateTeamsAndMatch ::
  "Room \<Rightarrow> string \<Rightarrow> Team list \<Rightarrow> (Match \<Rightarrow> Match) \<Rightarrow> Room option" where
  "updateTeamsAndMatch room teamId updatedTeams matchUpdates = do {
     idx \<leftarrow> myMatchIdx room teamId;
     m \<leftarrow> myMatch room teamId;
     Some (room\<lparr>teams := updatedTeams, matches := (matches room)[idx := matchUpdates m]\<rparr>)
   }"

subsection \<open>Fold\<close>

definition handleFold :: "Room \<Rightarrow> string \<Rightarrow> Room option" where
  "handleFold room teamId =
     (if \<not> isMyTurn room teamId then Some room
      else do {
        m \<leftarrow> myMatch room teamId;
        t \<leftarrow> team room teamId;
        myStrat \<leftarrow> at_index (strategy t) (currentRound m - 1);
        opp \<leftarrow> opponentTeam room teamId;
        oppStrat \<leftarrow> at_index (strategy opp) (currentRound m - 1);
        let potv = chips myStrat + chips oppStrat + carryOver m;
        let updatedOpponent = opp\<lparr>winnings := winnings opp + of_int potv\<rparr>;
        let historyItem = \<lparr>
              round_r = currentRound m,
              teamACard = (if isTeamA room teamId then card_s myStrat else card_s oppStrat),
              teamBCard = (if isTeamA room teamId then card_s oppStrat else card_s myStrat),
              teamAChips = (if isTeamA room teamId then chips myStrat else chips oppStrat),
              teamBChips = (if isTeamA room teamId then chips oppStrat else chips myStrat),
              result = (if isTeamA room teamId then A_FOLDED else B_FOLDED),
              potWon = potv \<rparr>;
        let updatedTeams = map (\<lambda>x. if id_t x = id_t opp then updatedOpponent else x) (teams room);
        updateTeamsAndMatch room teamId updatedTeams
          (\<lambda>mm. mm\<lparr>roundStatus := RESULT,
                    turnOwner := None,
                    lastAction := Some \<lparr>teamId_l = teamId, action_l = FOLD\<rparr>,
                    lastRoundResult := Some historyItem,
                    resultConfirmed := Map.empty,
                    history := history mm @ [historyItem]\<rparr>)
      })"

subsection \<open>The automatic evaluation on entering READY\<close>

text \<open>
  The effect of \<^verbatim>\<open>UserGameView\<close> that runs when the match enters a round. Its timer
  callback, which fires 100 ms later with the values the effect closed over, is taken
  at once.
\<close>

definition readyEvaluation :: "Room \<Rightarrow> string \<Rightarrow> Room option" where
  "readyEvaluation room teamId =
     (if status room \<noteq> ROOM_PLAYING \<or> myMatch room teamId = None \<or> team room teamId = None
         \<or> opponentTeam room teamId = None then Some room
      else if \<not> isTeamA room teamId then Some room
      else do {
        m \<leftarrow> myMatch room teamId;
        t \<leftarrow> team room teamId;
        opp \<leftarrow> opponentTeam room teamId;
        if roundStatus m = READY then do {
          myStrat \<leftarrow> at_index (strategy t) (currentRound m - 1);
          oppStrat \<leftarrow> at_index (strategy opp) (currentRound m - 1);
          if chips myStrat = chips oppStrat then
            updateMatchState room teamId (\<lambda>mm. mm\<lparr>roundStatus := SHOWDOWN\<rparr>)
          else do {
            let fewerChipsTeamId = (if chips myStrat < chips oppStrat then id_t t else id_t opp);
            updateMatchState room teamId
              (\<lambda>mm. mm\<lparr>roundStatus := DECISION, turnOwner := Some fewerChipsTeamId\<rparr>)
          }
        } else Some room
      })"

subsection \<open>Local state of the component\<close>

record Local =
  strategy_l :: "RoundStrategy list"
  neededChips :: rat
  submitConfirmOpen :: bool
  stealModalOpen :: bool
  tempStrategy :: "RoundStrategy list"

subsection \<open>Submitting a strategy\<close>

datatype alert = ALL_CARDS_REQUIRED | CHIPS_REMAINING int

definition usedChips :: "RoundStrategy list \<Rightarrow> int" where
  "usedChips strat = foldl (\<lambda>acc s. acc + chips s) 0 strat"

definition remainingChips :: "RoundStrategy list \<Rightarrow> int" where
  "remainingChips strat = TOTAL_CHIPS - usedChips strat"

definition usedCards :: "RoundStrategy list \<Rightarrow> int list" where
  "usedCards strat = filter (\<lambda>c. c \<noteq> - 1) (map card_s strat)"

definition confirmSubmit :: "Room \<Rightarrow> string \<Rightarrow> Local \<Rightarrow> Room \<times> Local" where
  "confirmSubmit room teamId loc =
     (let updatedTeams =
            map (\<lambda>t. if id_t t = teamId then t\<lparr>isReady := True, strategy := strategy_l loc\<rparr> else t)
              (teams room)
      in (room\<lparr>teams := updatedTeams\<rparr>, loc\<lparr>submitConfirmOpen := False\<rparr>))"

text \<open>
  A refused submission shows an alert and changes nothing: it is the \<open>Inl\<close> result.
\<close>

definition handleSubmitStrategy ::
  "Room \<Rightarrow> string \<Rightarrow> bool \<Rightarrow> Local \<Rightarrow> alert + Room \<times> Local" where
  "handleSubmitStrategy room teamId isAdminMode loc =
     (if \<not> isAdminMode then
        (if length (usedCards (strategy_l loc)) \<noteq> 10 then Inl ALL_CARDS_REQUIRED
         else if remainingChips (strategy_l loc) \<noteq> 0 then
           Inl (CHIPS_REMAINING (remainingChips (strategy_l loc)))
         else Inr (room, loc\<lparr>submitConfirmOpen := True\<rparr>))
      else Inr (confirmSubmit room teamId loc))"

text \<open>The chip buttons of the strategy editor (\<^verbatim>\<open>delta\<close> is 1 or -1).\<close>

definition handleSetChips ::
  "Room \<Rightarrow> bool \<Rightarrow> Local \<Rightarrow> nat \<Rightarrow> int \<Rightarrow> Local option" where
  "handleSetChips room isAdminMode loc roundIdx delta =
     (if status room \<noteq> ROOM_PREPARING \<and> \<not> isAdminMode then Some loc
      else do {
        cur \<leftarrow> at_index (strategy_l loc) (int roundIdx);
        let newChips = chips cur + delta;
        if newChips < 1 then Some loc
        else if delta > 0 \<and> usedChips (strategy_l loc) \<ge> TOTAL_CHIPS then Some loc
        else Some (loc\<lparr>strategy_l := (strategy_l loc)[roundIdx := cur\<lparr>chips := newChips\<rparr>]\<rparr>)
      })"

subsection \<open>Call\<close>

text \<open>\<^verbatim>\<open>xs.map((s, i) => ...)\<close>: a map that also sees the index.\<close>

definition map_index :: "(nat \<Rightarrow> 'a \<Rightarrow> 'b) \<Rightarrow> 'a list \<Rightarrow> 'b list" where
  "map_index f xs = map (\<lambda>(i, x). f i x) (enumerate 0 xs)"

definition handleCall :: "Room \<Rightarrow> string \<Rightarrow> Local \<Rightarrow> (Room \<times> Local) option" where
  "handleCall room teamId loc =
     (if \<not> isMyTurn room teamId then Some (room, loc)
      else do {
        m \<leftarrow> myMatch room teamId;
        t \<leftarrow> team room teamId;
        myStrat \<leftarrow> at_index (strategy t) (currentRound m - 1);
        opp \<leftarrow> opponentTeam room teamId;
        oppStrat \<leftarrow> at_index (strategy opp) (currentRound m - 1);
        let diff = chips oppStrat - chips myStrat;
        let w = winnings t;
        if w \<ge> of_int diff then do {
          let updatedTeam = t\<lparr>
                winnings := w - of_int diff,
                strategy := map_index
                  (\<lambda>i s. if int i = currentRound m - 1 then s\<lparr>chips := chips s + diff\<rparr> else s)
                  (strategy t) \<rparr>;
          let updatedTeams = map (\<lambda>x. if id_t x = teamId then updatedTeam else x) (teams room);
          room' \<leftarrow> updateTeamsAndMatch room teamId updatedTeams
            (\<lambda>mm. mm\<lparr>roundStatus := SHOWDOWN,
                      turnOwner := None,
                      lastAction := Some \<lparr>teamId_l = teamId, action_l = CALL\<rparr>\<rparr>);
          Some (room', loc)
        } else
          Some (room, loc\<lparr>neededChips := of_int diff - w,
                          tempStrategy := strategy t,
                          stealModalOpen := True\<rparr>)
      })"

subsection \<open>Steal: covering a call from future rounds\<close>

text \<open>
  The loop shared by \<^verbatim>\<open>adjustTempChips\<close> and \<^verbatim>\<open>calculateStolenAmount\<close>: over the team's
  strategy, the chips missing in the edited copy at every index \<^verbatim>\<open>i >= currentRound\<close>
  that the copy has.
\<close>

definition stolenAmount :: "RoundStrategy list \<Rightarrow> RoundStrategy list \<Rightarrow> int \<Rightarrow> int" where
  "stolenAmount orig next cr =
     (\<Sum>i\<leftarrow>[0..<length orig].
        if cr \<le> int i \<and> i < length next then chips (orig ! i) - chips (next ! i) else 0)"

definition adjustTempChips ::
  "Room \<Rightarrow> string \<Rightarrow> Local \<Rightarrow> nat \<Rightarrow> int \<Rightarrow> Local option" where
  "adjustTempChips room teamId loc roundIdx delta = do {
     let prev = tempStrategy loc;
     cur \<leftarrow> at_index prev (int roundIdx);
     let newVal = chips cur + delta;
     let next = prev[roundIdx := cur\<lparr>chips := newVal\<rparr>];
     if newVal < 1 then Some loc
     else if delta < 0 then do {
       t \<leftarrow> team room teamId;
       m \<leftarrow> myMatch room teamId;
       let wouldSteal = stolenAmount (strategy t) next (currentRound m);
       if of_int wouldSteal > neededChips loc then Some loc
       else Some (loc\<lparr>tempStrategy := next\<rparr>)
     }
     else Some (loc\<lparr>tempStrategy := next\<rparr>)
   }"

definition calculateStolenAmount :: "Room \<Rightarrow> string \<Rightarrow> Local \<Rightarrow> int" where
  "calculateStolenAmount room teamId loc =
     (case (team room teamId, myMatch room teamId) of
        (Some t, Some m) \<Rightarrow>
          if tempStrategy loc = [] then 0
          else stolenAmount (strategy t) (tempStrategy loc) (currentRound m)
      | _ \<Rightarrow> 0)"

definition canConfirmSteal :: "Room \<Rightarrow> string \<Rightarrow> Local \<Rightarrow> bool" where
  "canConfirmSteal room teamId loc \<longleftrightarrow>
     of_int (calculateStolenAmount room teamId loc) \<ge> neededChips loc"

text \<open>
  \<^verbatim>\<open>confirmSteal\<close> first sums what was taken from the rounds after the current one; the sum
  goes into \<^verbatim>\<open>totalAvailable\<close>, which nothing reads, so only the reads of the loop (a
  missing entry of the copy throws) remain of it.
\<close>

definition stolenTotal :: "RoundStrategy list \<Rightarrow> RoundStrategy list \<Rightarrow> int \<Rightarrow> int option" where
  "stolenTotal orig tmp currentRoundIdx =
     map_option sum_list (those (map
       (\<lambda>i. if int i > currentRoundIdx
            then map_option (\<lambda>ts. max 0 (chips (orig ! i) - chips ts)) (at_index tmp (int i))
            else Some 0)
       [0..<length orig]))"

definition confirmSteal :: "Room \<Rightarrow> string \<Rightarrow> Local \<Rightarrow> (Room \<times> Local) option" where
  "confirmSteal room teamId loc = do {
     m \<leftarrow> myMatch room teamId;
     let currentRoundIdx = currentRound m - 1;
     t \<leftarrow> team room teamId;
     stolen \<leftarrow> stolenTotal (strategy t) (tempStrategy loc) currentRoundIdx;
     let totalAvailable = winnings t + of_int stolen;
     opp \<leftarrow> opponentTeam room teamId;
     oppStrat \<leftarrow> at_index (strategy opp) currentRoundIdx;
     myStrat \<leftarrow> at_index (strategy t) currentRoundIdx;
     let diff = chips oppStrat - chips myStrat;
     tmpStrat \<leftarrow> at_index (tempStrategy loc) currentRoundIdx;
     let newCurrentChips = chips tmpStrat + diff;
     let updatedStrategy = (tempStrategy loc)[nat currentRoundIdx := tmpStrat\<lparr>chips := newCurrentChips\<rparr>];
     let updatedTeam = t\<lparr>winnings := 0, strategy := updatedStrategy\<rparr>;
     let updatedTeams = map (\<lambda>x. if id_t x = teamId then updatedTeam else x) (teams room);
     room' \<leftarrow> updateTeamsAndMatch room teamId updatedTeams
       (\<lambda>mm. mm\<lparr>roundStatus := SHOWDOWN, turnOwner := None\<rparr>);
     Some (room', loc\<lparr>stealModalOpen := False, tempStrategy := updatedStrategy\<rparr>)
   }"

text \<open>
  The controls of the steal dialog. It lists the rounds of the copy with index
  \<^verbatim>\<open>idx >= currentRound\<close>, each with a button that takes one chip and is disabled at one
  chip; the cancel button closes the dialog; the confirm button is disabled unless
  \<^verbatim>\<open>canConfirmSteal\<close>. A control that is not rendered, or is disabled, does nothing.
\<close>

definition stealMinusClick :: "Room \<Rightarrow> string \<Rightarrow> Local \<Rightarrow> nat \<Rightarrow> Local option" where
  "stealMinusClick room teamId loc idx =
     (if \<not> stealModalOpen loc \<or> idx \<ge> length (tempStrategy loc) then Some loc
      else if int idx < (case myMatch room teamId of None \<Rightarrow> 0 | Some m \<Rightarrow> currentRound m)
        then Some loc
      else if chips (tempStrategy loc ! idx) \<le> 1 then Some loc
      else adjustTempChips room teamId loc idx (- 1))"

definition stealCancelClick :: "Room \<Rightarrow> Local \<Rightarrow> Room \<times> Local" where
  "stealCancelClick room loc = (room, loc\<lparr>stealModalOpen := False\<rparr>)"

definition stealConfirmClick :: "Room \<Rightarrow> string \<Rightarrow> Local \<Rightarrow> (Room \<times> Local) option" where
  "stealConfirmClick room teamId loc =
     (if \<not> stealModalOpen loc \<or> \<not> canConfirmSteal room teamId loc then Some (room, loc)
      else confirmSteal room teamId loc)"

text \<open>A run of the dialog: the rounds whose button is pressed, in order.\<close>

fun stealClicks :: "Room \<Rightarrow> string \<Rightarrow> Local \<Rightarrow> nat list \<Rightarrow> Local option" where
  "stealClicks room teamId loc [] = Some loc"
| "stealClicks room teamId loc (idx # idxs) = do {
     loc' \<leftarrow> stealMinusClick room teamId loc idx;
     stealClicks room teamId loc' idxs
   }"

subsection \<open>Showdown\<close>

datatype winner = WINNER_A | WINNER_B | WINNER_DRAW

definition handleShowdown :: "Room \<Rightarrow> string \<Rightarrow> Room option" where
  "handleShowdown room teamId = do {
     m \<leftarrow> myMatch room teamId;
     if roundStatus m \<noteq> SHOWDOWN then Some room
     else do {
       teamA \<leftarrow> find (\<lambda>t. id_t t = teamAId m) (teams room);
       teamB \<leftarrow> find (\<lambda>t. id_t t = teamBId m) (teams room);
       stratA \<leftarrow> at_index (strategy teamA) (currentRound m - 1);
       stratB \<leftarrow> at_index (strategy teamB) (currentRound m - 1);
       let potv = chips stratA + chips stratB + carryOver m;
       let (win, carry, winningsA, winningsB, scoreA, scoreB) =
         (if card_s stratA > card_s stratB then
            (WINNER_A, 0, winnings teamA + of_int potv, winnings teamB,
             teamAScore m + 1, teamBScore m)
          else if card_s stratB > card_s stratA then
            (WINNER_B, 0, winnings teamA, winnings teamB + of_int potv,
             teamAScore m, teamBScore m + 1)
          else if currentRound m = TOTAL_ROUNDS then
            (WINNER_DRAW, 0,
             winnings teamA + (of_int (chips stratA) + of_int (carryOver m) / 2),
             winnings teamB + (of_int (chips stratB) + of_int (carryOver m) / 2),
             teamAScore m, teamBScore m)
          else
            (WINNER_DRAW, potv, winnings teamA, winnings teamB, teamAScore m, teamBScore m));
       let historyItem = \<lparr>
             round_r = currentRound m,
             teamACard = card_s stratA,
             teamBCard = card_s stratB,
             teamAChips = chips stratA,
             teamBChips = chips stratB,
             result = (case win of WINNER_A \<Rightarrow> A_WON | WINNER_B \<Rightarrow> B_WON | WINNER_DRAW \<Rightarrow> DRAW),
             potWon = (if win = WINNER_DRAW then 0 else potv) \<rparr>;
       let updatedTeamA = teamA\<lparr>winnings := winningsA\<rparr>;
       let updatedTeamB = teamB\<lparr>winnings := winningsB\<rparr>;
       let updatedTeams =
             map (\<lambda>t. if id_t t = id_t teamA then updatedTeamA
                      else if id_t t = id_t teamB then updatedTeamB else t) (teams room);
       updateTeamsAndMatch room teamId updatedTeams
         (\<lambda>mm. mm\<lparr>roundStatus := RESULT,
                   turnOwner := None,
                   pot := 0,
                   carryOver := carry,
                   teamAScore := scoreA,
                   teamBScore := scoreB,
                   lastRoundResult := Some historyItem,
                   resultConfirmed := Map.empty,
                   history := history mm @ [historyItem]\<rparr>)
     }
   }"

subsection \<open>Confirming a round's result\<close>

definition handleConfirmResult :: "Room \<Rightarrow> string \<Rightarrow> Room option" where
  "handleConfirmResult room teamId = do {
     m \<leftarrow> myMatch room teamId;
     let confirmed = (resultConfirmed m)(teamId \<mapsto> True);
     let bothConfirmed = (truthy (confirmed (teamAId m)) \<and> truthy (confirmed (teamBId m)));
     let nextRound = currentRound m + 1;
     let isGameEnd = (nextRound > TOTAL_ROUNDS);
     if bothConfirmed then
       updateMatchState room teamId
         (\<lambda>mm. mm\<lparr>currentRound := (if isGameEnd then currentRound m else nextRound),
                   roundStatus := (if isGameEnd then FINISHED else READY),
                   resultConfirmed := Map.empty,
                   lastRoundResult := None,
                   lastAction := None\<rparr>)
     else
       updateMatchState room teamId (\<lambda>mm. mm\<lparr>resultConfirmed := confirmed\<rparr>)
   }"

text \<open>
  The handler is called from one place, the button of the result dialog. The component
  renders nothing but a loading line without its team; the dialog is rendered when
  \<^verbatim>\<open>myMatch?.roundStatus === 'RESULT' && myMatch.lastRoundResult\<close>, and its button is
  disabled when \<^verbatim>\<open>myMatch.resultConfirmed?.[teamId]\<close>. A button that is not rendered, or
  is disabled, does nothing.
\<close>

definition resultDialogButton :: "Room \<Rightarrow> string \<Rightarrow> bool" where
  "resultDialogButton room teamId \<longleftrightarrow>
     team room teamId \<noteq> None
     \<and> (case myMatch room teamId of
          None \<Rightarrow> False
        | Some m \<Rightarrow> roundStatus m = RESULT \<and> lastRoundResult m \<noteq> None
                    \<and> \<not> truthy (resultConfirmed m teamId))"

definition resultConfirmClick :: "Room \<Rightarrow> string \<Rightarrow> Room option" where
  "resultConfirmClick room teamId =
     (if resultDialogButton room teamId then handleConfirmResult room teamId else Some room)"

section \<open>Observations and example rooms\<close>

text \<open>The history items the two resolutions build, as functions of what they read.\<close>

definition foldItem :: "Match \<Rightarrow> bool \<Rightarrow> RoundStrategy \<Rightarrow> RoundStrategy \<Rightarrow> RoundResult" where
  "foldItem m a ms os = \<lparr>
     round_r = currentRound m,
     teamACard = (if a then card_s ms else card_s os),
     teamBCard = (if a then card_s os else card_s ms),
     teamAChips = (if a then chips ms else chips os),
     teamBChips = (if a then chips os else chips ms),
     result = (if a then A_FOLDED else B_FOLDED),
     potWon = chips ms + chips os + carryOver m \<rparr>"

definition showdownItem :: "Match \<Rightarrow> RoundStrategy \<Rightarrow> RoundStrategy \<Rightarrow> RoundResult" where
  "showdownItem m sa sb = \<lparr>
     round_r = currentRound m,
     teamACard = card_s sa,
     teamBCard = card_s sb,
     teamAChips = chips sa,
     teamBChips = chips sb,
     result = (if card_s sa > card_s sb then A_WON else if card_s sb > card_s sa then B_WON else DRAW),
     potWon = (if card_s sa = card_s sb then 0 else chips sa + chips sb + carryOver m) \<rparr>"

text \<open>The winnings and the carry-over \<^verbatim>\<open>handleShowdown\<close> writes, branch by branch.\<close>

definition showdownWinningsA :: "Match \<Rightarrow> Team \<Rightarrow> RoundStrategy \<Rightarrow> RoundStrategy \<Rightarrow> rat" where
  "showdownWinningsA m ta sa sb =
     (if card_s sa > card_s sb then winnings ta + of_int (chips sa + chips sb + carryOver m)
      else if card_s sb > card_s sa then winnings ta
      else if currentRound m = TOTAL_ROUNDS
        then winnings ta + (of_int (chips sa) + of_int (carryOver m) / 2)
      else winnings ta)"

definition showdownWinningsB :: "Match \<Rightarrow> Team \<Rightarrow> RoundStrategy \<Rightarrow> RoundStrategy \<Rightarrow> rat" where
  "showdownWinningsB m tb sa sb =
     (if card_s sa > card_s sb then winnings tb
      else if card_s sb > card_s sa then winnings tb + of_int (chips sa + chips sb + carryOver m)
      else if currentRound m = TOTAL_ROUNDS
        then winnings tb + (of_int (chips sb) + of_int (carryOver m) / 2)
      else winnings tb)"

definition showdownCarry :: "Match \<Rightarrow> RoundStrategy \<Rightarrow> RoundStrategy \<Rightarrow> int" where
  "showdownCarry m sa sb =
     (if card_s sa = card_s sb \<and> currentRound m \<noteq> TOTAL_ROUNDS
      then chips sa + chips sb + carryOver m else 0)"

text \<open>What a client reads from the room a handler wrote.\<close>

definition matchAfter :: "Room option \<Rightarrow> string \<Rightarrow> Match option" where
  "matchAfter r k = Option.bind r (\<lambda>room. myMatch room k)"

definition teamAfter :: "Room option \<Rightarrow> string \<Rightarrow> Team option" where
  "teamAfter r k = Option.bind r (\<lambda>room. team room k)"

definition resultAfter :: "Room option \<Rightarrow> string \<Rightarrow> RoundResult option" where
  "resultAfter r k = Option.bind (matchAfter r k) lastRoundResult"

text \<open>Example rooms: one match between the teams \<open>A\<close> and \<open>B\<close>.\<close>

fun exampleStrategy :: "int \<Rightarrow> int list \<Rightarrow> int list \<Rightarrow> RoundStrategy list" where
  "exampleStrategy n (c # cs) (x # xs) =
     \<lparr>round_s = n, card_s = c, chips = x\<rparr> # exampleStrategy (n + 1) cs xs"
| "exampleStrategy n _ _ = []"

definition exampleTeam :: "string \<Rightarrow> rat \<Rightarrow> int list \<Rightarrow> int list \<Rightarrow> Team" where
  "exampleTeam i w cs xs =
     \<lparr>id_t = i, name_t = i, isReady = True, winnings = w, members = [],
      strategy = exampleStrategy 1 cs xs\<rparr>"

definition exampleMatch :: "int \<Rightarrow> round_status \<Rightarrow> string option \<Rightarrow> int \<Rightarrow> Match" where
  "exampleMatch r st own co =
     \<lparr>id_m = ''m'', teamAId = ''A'', teamBId = ''B'', teamAScore = 0, teamBScore = 0,
      currentRound = r, roundStatus = st, turnOwner = own, pot = 0, carryOver = co,
      history = [], lastRoundResult = None, resultConfirmed = Map.empty, lastAction = None\<rparr>"

definition exampleRoom :: "Team \<Rightarrow> Team \<Rightarrow> Match \<Rightarrow> Room" where
  "exampleRoom a b m = \<lparr>teams = [a, b], matches = [m], status = ROOM_PLAYING\<rparr>"

text \<open>
  Scenario C of the specification: team \<open>A\<close> is to decide round 5 with 3 chips against 6,
  and a carry-over of 1.
\<close>

definition scenarioC :: Room where
  "scenarioC = exampleRoom
     (exampleTeam ''A'' 0 [0, 1, 2, 3, 4, 5, 6, 7, 8, 9] [3, 3, 3, 3, 3, 3, 3, 3, 3, 3])
     (exampleTeam ''B'' 0 [9, 8, 7, 6, 5, 4, 3, 2, 1, 0] [1, 2, 2, 2, 6, 3, 3, 3, 3, 5])
     (exampleMatch 5 DECISION (Some ''A'') 1)"

text \<open>One more handler run by team \<open>k\<close> on the room the last one wrote.\<close>

definition thenDo :: "Room option \<Rightarrow> (Room \<Rightarrow> string \<Rightarrow> Room option) \<Rightarrow> string \<Rightarrow> Room option" where
  "thenDo r handler k = Option.bind r (\<lambda>room. handler room k)"

text \<open>
  Scenario B of the specification: the final round in SHOWDOWN, both teams with 4 chips
  and card 7, and a carry-over of 2. The second room has a carry-over of 1 instead.
\<close>

definition scenarioB :: Room where
  "scenarioB = exampleRoom
     (exampleTeam ''A'' 0 [0, 1, 2, 3, 4, 5, 6, 8, 9, 7] [3, 3, 3, 3, 3, 3, 3, 3, 2, 4])
     (exampleTeam ''B'' 0 [9, 8, 6, 5, 4, 3, 2, 1, 0, 7] [1, 2, 2, 2, 6, 3, 3, 3, 4, 4])
     (exampleMatch 10 SHOWDOWN None 2)"

definition oddCarryFinalDraw :: Room where
  "oddCarryFinalDraw = exampleRoom
     (exampleTeam ''A'' 0 [0, 1, 2, 3, 4, 5, 6, 8, 9, 7] [3, 3, 3, 3, 3, 3, 3, 3, 2, 4])
     (exampleTeam ''B'' 0 [9, 8, 6, 5, 4, 3, 2, 1, 0, 7] [1, 2, 2, 2, 6, 3, 3, 3, 4, 4])
     (exampleMatch 10 SHOWDOWN None 1)"

text \<open>
  Scenario A of the specification: round 3, team \<open>A\<close> with 2 chips, card 5 and winnings
  of 10 against 5 chips and card 3; and the same round after the call, in SHOWDOWN.
\<close>

definition scenarioA :: Room where
  "scenarioA = exampleRoom
     (exampleTeam ''A'' 10 [0, 1, 5, 2, 3, 4, 6, 7, 8, 9] [3, 3, 2, 3, 3, 3, 3, 3, 3, 4])
     (exampleTeam ''B'' 0 [9, 8, 3, 7, 6, 5, 4, 2, 1, 0] [1, 2, 5, 2, 6, 3, 3, 3, 3, 2])
     (exampleMatch 3 READY None 0)"

definition scenarioA_showdown :: Room where
  "scenarioA_showdown = exampleRoom
     (exampleTeam ''A'' 7 [0, 1, 5, 2, 3, 4, 6, 7, 8, 9] [3, 3, 5, 3, 3, 3, 3, 3, 3, 4])
     (exampleTeam ''B'' 0 [9, 8, 3, 7, 6, 5, 4, 2, 1, 0] [1, 2, 5, 2, 6, 3, 3, 3, 3, 2])
     (exampleMatch 3 SHOWDOWN None 0)"

text \<open>A client's local state with every dialog closed.\<close>

definition exampleLocal :: Local where
  "exampleLocal = \<lparr>strategy_l = [], neededChips = 0, submitConfirmOpen = False,
     stealModalOpen = False, tempStrategy = []\<rparr>"

text \<open>Scenario A with the match in DECISION and team \<open>A\<close>, who holds fewer chips, to act.\<close>

definition scenarioA_decision :: Room where
  "scenarioA_decision = exampleRoom
     (exampleTeam ''A'' 10 [0, 1, 5, 2, 3, 4, 6, 7, 8, 9] [3, 3, 2, 3, 3, 3, 3, 3, 3, 4])
     (exampleTeam ''B'' 0 [9, 8, 3, 7, 6, 5, 4, 2, 1, 0] [1, 2, 5, 2, 6, 3, 3, 3, 3, 2])
     (exampleMatch 3 DECISION (Some ''A'') 0)"

text \<open>Scenario B as the final round is entered, before the automatic evaluation.\<close>

definition scenarioB_ready :: Room where
  "scenarioB_ready = exampleRoom
     (exampleTeam ''A'' 0 [0, 1, 2, 3, 4, 5, 6, 8, 9, 7] [3, 3, 3, 3, 3, 3, 3, 3, 2, 4])
     (exampleTeam ''B'' 0 [9, 8, 6, 5, 4, 3, 2, 1, 0, 7] [1, 2, 2, 2, 6, 3, 3, 3, 4, 4])
     (exampleMatch 10 READY None 2)"

text \<open>
  What \<^verbatim>\<open>handleConfirmResult\<close> decides on (both entries of the map truthy once the
  caller's is set) and the match it writes.
\<close>

definition bothConfirmed :: "Match \<Rightarrow> string \<Rightarrow> bool" where
  "bothConfirmed m k \<longleftrightarrow>
     truthy (((resultConfirmed m)(k \<mapsto> True)) (teamAId m))
     \<and> truthy (((resultConfirmed m)(k \<mapsto> True)) (teamBId m))"


text \<open>
  Scenario C after team \<open>A\<close> has folded round 5 and team \<open>B\<close> has confirmed the result:
  the match waits for team \<open>A\<close>'s confirmation.
\<close>

definition scenarioC_folded :: Room where
  "scenarioC_folded = exampleRoom
     (exampleTeam ''A'' 0 [0, 1, 2, 3, 4, 5, 6, 7, 8, 9] [3, 3, 3, 3, 3, 3, 3, 3, 3, 3])
     (exampleTeam ''B'' 10 [9, 8, 7, 6, 5, 4, 3, 2, 1, 0] [1, 2, 2, 2, 6, 3, 3, 3, 3, 5])
     ((exampleMatch 5 RESULT None 1)\<lparr>
        lastAction := Some \<lparr>teamId_l = ''A'', action_l = FOLD\<rparr>,
        lastRoundResult := Some \<lparr>round_r = 5, teamACard = 4, teamBCard = 5, teamAChips = 3,
          teamBChips = 6, result = A_FOLDED, potWon = 10\<rparr>,
        resultConfirmed := [''B'' \<mapsto> True],
        history := [\<lparr>round_r = 5, teamACard = 4, teamBCard = 5, teamAChips = 3,
          teamBChips = 6, result = A_FOLDED, potWon = 10\<rparr>]\<rparr>)"

text \<open>A team's entry of \<open>resultConfirmed\<close> in the room a handler wrote.\<close>

definition confirmedAfter :: "Room option \<Rightarrow> string \<Rightarrow> string \<Rightarrow> bool option" where
  "confirmedAfter r k i = Option.bind (matchAfter r k) (\<lambda>m. resultConfirmed m i)"

section \<open>The strategy editor\<close>

text \<open>
  Modelled from the spec: the constant \<^verbatim>\<open>CARDS\<close> is imported from \<^verbatim>\<open>./types\<close>, which is
  not among the source files; the specification has ten unique cards, 0 to 9.
\<close>

definition CARDS :: "int list" where
  "CARDS = [0, 1, 2, 3, 4, 5, 6, 7, 8, 9]"

text \<open>
  The strategy the editor starts from: the team's stored one if it has ten rounds, else
  ten rounds without a card and with one chip each.
\<close>

definition initialStrategy :: "Team option \<Rightarrow> RoundStrategy list" where
  "initialStrategy t =
     (case t of
        Some tm \<Rightarrow>
          if strategy tm \<noteq> [] \<and> int (length (strategy tm)) = TOTAL_ROUNDS then strategy tm
          else map (\<lambda>i. \<lparr>round_s = int i + 1, card_s = - 1, chips = 1\<rparr>) [0..<nat TOTAL_ROUNDS]
      | None \<Rightarrow> map (\<lambda>i. \<lparr>round_s = int i + 1, card_s = - 1, chips = 1\<rparr>) [0..<nat TOTAL_ROUNDS])"

text \<open>
  The item being dragged: a card, and where it was picked up (\<open>None\<close> for the deck,
  else the index of a round). \<^verbatim>\<open>handleDragStart\<close> sets it, \<^verbatim>\<open>handleDrop\<close> reads it; the
  drop zone under the pointer is the index of a round, or nothing.
\<close>

record DragItem =
  data :: int
  source :: "nat option"

definition handleDragStart :: "Room \<Rightarrow> bool \<Rightarrow> int \<Rightarrow> nat option \<Rightarrow> DragItem option" where
  "handleDragStart room isAdminMode c src =
     (if status room \<noteq> ROOM_PREPARING \<and> \<not> isAdminMode then None
      else if c = - 1 then None
      else Some \<lparr>data = c, source = src\<rparr>)"

definition handleDrop ::
  "Room \<Rightarrow> bool \<Rightarrow> Local \<Rightarrow> DragItem option \<Rightarrow> nat option \<Rightarrow> Local option" where
  "handleDrop room isAdminMode loc item dropZone =
     (if status room \<noteq> ROOM_PREPARING \<and> \<not> isAdminMode then Some loc
      else case item of
        None \<Rightarrow> Some loc
      | Some it \<Rightarrow>
          (case dropZone of
             Some targetRoundIdx \<Rightarrow>
               (case source it of
                  None \<Rightarrow> do {
                    tgt \<leftarrow> at_index (strategy_l loc) (int targetRoundIdx);
                    Some (loc\<lparr>strategy_l :=
                      (strategy_l loc)[targetRoundIdx := tgt\<lparr>card_s := data it\<rparr>]\<rparr>)
                  }
                | Some sourceRoundIdx \<Rightarrow>
                    if sourceRoundIdx \<noteq> targetRoundIdx then do {
                      tgt \<leftarrow> at_index (strategy_l loc) (int targetRoundIdx);
                      src \<leftarrow> at_index (strategy_l loc) (int sourceRoundIdx);
                      Some (loc\<lparr>strategy_l :=
                        (strategy_l loc)[targetRoundIdx := tgt\<lparr>card_s := data it\<rparr>,
                                         sourceRoundIdx := src\<lparr>card_s := card_s tgt\<rparr>]\<rparr>)
                    } else Some loc)
           | None \<Rightarrow>
               (case source it of
                  None \<Rightarrow> Some loc
                | Some sourceRoundIdx \<Rightarrow> do {
                    src \<leftarrow> at_index (strategy_l loc) (int sourceRoundIdx);
                    Some (loc\<lparr>strategy_l :=
                      (strategy_l loc)[sourceRoundIdx := src\<lparr>card_s := - 1\<rparr>]\<rparr>)
                  })))"

definition handleCardDoubleClick :: "Room \<Rightarrow> bool \<Rightarrow> Local \<Rightarrow> nat \<Rightarrow> Local option" where
  "handleCardDoubleClick room isAdminMode loc roundIdx =
     (if status room \<noteq> ROOM_PREPARING \<and> \<not> isAdminMode then Some loc
      else do {
        cur \<leftarrow> at_index (strategy_l loc) (int roundIdx);
        Some (loc\<lparr>strategy_l := (strategy_l loc)[roundIdx := cur\<lparr>card_s := - 1\<rparr>]\<rparr>)
      })"

text \<open>
  What a team can do in the editor. The board offers the chip buttons, the drag of a
  round's card and its double click unless it is read-only, the latter two only on a
  round that holds a card; the deck offers the cards of \<^verbatim>\<open>CARDS\<close> that no round
  holds. The board and the deck are rendered while the room is preparing.
\<close>

datatype gesture =
    ChipMinus nat
  | ChipPlus nat
  | DragFromDeck int "nat option"
  | DragFromRound nat "nat option"
  | DoubleClick nat

definition readOnly :: "Team \<Rightarrow> bool \<Rightarrow> bool" where
  "readOnly t isAdminMode \<longleftrightarrow> isReady t \<and> \<not> isAdminMode"

definition dropZone :: "Local \<Rightarrow> nat option \<Rightarrow> nat option" where
  "dropZone loc z = (case z of Some j \<Rightarrow> if j < length (strategy_l loc) then Some j else None | None \<Rightarrow> None)"

fun editorGesture :: "Room \<Rightarrow> Team \<Rightarrow> bool \<Rightarrow> Local \<Rightarrow> gesture \<Rightarrow> Local option" where
  "editorGesture room t isAdminMode loc (ChipMinus idx) =
     (if status room \<noteq> ROOM_PREPARING \<or> readOnly t isAdminMode \<or> idx \<ge> length (strategy_l loc)
      then Some loc
      else handleSetChips room isAdminMode loc idx (- 1))"
| "editorGesture room t isAdminMode loc (ChipPlus idx) =
     (if status room \<noteq> ROOM_PREPARING \<or> readOnly t isAdminMode \<or> idx \<ge> length (strategy_l loc)
      then Some loc
      else handleSetChips room isAdminMode loc idx 1)"
| "editorGesture room t isAdminMode loc (DragFromDeck c z) =
     (if status room \<noteq> ROOM_PREPARING \<or> readOnly t isAdminMode \<or> c \<notin> set CARDS
         \<or> c \<in> set (usedCards (strategy_l loc))
      then Some loc
      else handleDrop room isAdminMode loc (handleDragStart room isAdminMode c None)
             (dropZone loc z))"
| "editorGesture room t isAdminMode loc (DragFromRound idx z) =
     (if status room \<noteq> ROOM_PREPARING \<or> readOnly t isAdminMode \<or> idx \<ge> length (strategy_l loc)
      then Some loc
      else if card_s (strategy_l loc ! idx) = - 1 then Some loc
      else handleDrop room isAdminMode loc
             (handleDragStart room isAdminMode (card_s (strategy_l loc ! idx)) (Some idx))
             (dropZone loc z))"
| "editorGesture room t isAdminMode loc (DoubleClick idx) =
     (if status room \<noteq> ROOM_PREPARING \<or> readOnly t isAdminMode \<or> idx \<ge> length (strategy_l loc)
      then Some loc
      else if card_s (strategy_l loc ! idx) = - 1 then Some loc
      else handleCardDoubleClick room isAdminMode loc idx)"

fun editor :: "Room \<Rightarrow> Team \<Rightarrow> bool \<Rightarrow> Local \<Rightarrow> gesture list \<Rightarrow> Local option" where
  "editor room t isAdminMode loc [] = Some loc"
| "editor room t isAdminMode loc (g # gs) = do {
     loc' \<leftarrow> editorGesture room t isAdminMode loc g;
     editor room t isAdminMode loc' gs
   }"

text \<open>
  The specification's valid strategy: the cards of the ten rounds are 0 to 9, each once,
  the chips add up to \<^verbatim>\<open>TOTAL_CHIPS\<close>, and every round has at least one chip.
\<close>

definition validStrategy_spec :: "RoundStrategy list \<Rightarrow> bool" where
  "validStrategy_spec strat \<longleftrightarrow>
     sort (map card_s strat) = [0, 1, 2, 3, 4, 5, 6, 7, 8, 9]
     \<and> sum_list (map chips strat) = TOTAL_CHIPS
     \<and> list_all (\<lambda>s. chips s \<ge> 1) strat"

text \<open>
  What the editor maintains: ten rounds, at least one chip in each, every card either
  missing or one of \<^verbatim>\<open>CARDS\<close>, and no card in two rounds.
\<close>

definition cardsInv :: "int list \<Rightarrow> bool" where
  "cardsInv cs \<longleftrightarrow>
     (\<forall>i < length cs. cs ! i = - 1 \<or> cs ! i \<in> set CARDS)
     \<and> (\<forall>i < length cs. \<forall>j < length cs. cs ! i = cs ! j \<and> cs ! i \<noteq> - 1 \<longrightarrow> i = j)"

definition editorInv :: "RoundStrategy list \<Rightarrow> bool" where
  "editorInv strat \<longleftrightarrow>
     length strat = 10 \<and> list_all (\<lambda>s. chips s \<ge> 1) strat \<and> cardsInv (map card_s strat)"

text \<open>
  A preparing room with two teams that have not submitted; the gestures that put card
  \<open>c\<close> on round \<open>c + 1\<close> and all spare chips on round 1, and the strategy they build;
  and a strategy that uses card 0 twice.
\<close>

definition freshTeam :: "string \<Rightarrow> Team" where
  "freshTeam i = \<lparr>id_t = i, name_t = i, isReady = False, winnings = 0, members = [], strategy = []\<rparr>"

definition preparingRoom :: Room where
  "preparingRoom = \<lparr>teams = [freshTeam ''A'', freshTeam ''B''], matches = [], status = ROOM_PREPARING\<rparr>"

definition exampleGestures :: "gesture list" where
  "exampleGestures =
     map (\<lambda>c. DragFromDeck (int c) (Some c)) [0..<10] @ replicate 20 (ChipPlus 0)"

definition builtStrategy :: "RoundStrategy list" where
  "builtStrategy = exampleStrategy 1 [0, 1, 2, 3, 4, 5, 6, 7, 8, 9] [21, 1, 1, 1, 1, 1, 1, 1, 1, 1]"

definition duplicateCards :: "RoundStrategy list" where
  "duplicateCards = exampleStrategy 1 [0, 0, 1, 2, 3, 4, 5, 6, 7, 8] [3, 3, 3, 3, 3, 3, 3, 3, 3, 3]"

section \<open>The steal dialog\<close>

text \<open>
  What holds of the local state while the steal dialog is open on a team's strategy
  \<open>orig\<close>: the copy has as many rounds; a round of the copy that differs from the
  original is a round after the current one (its index is at least \<open>currentRound\<close>),
  differs in its chips only, and has fewer chips but at least one; and what was taken
  does not exceed \<open>neededChips\<close>.
\<close>

definition stealInv :: "RoundStrategy list \<Rightarrow> int \<Rightarrow> rat \<Rightarrow> Local \<Rightarrow> bool" where
  "stealInv orig cr needed loc \<longleftrightarrow>
     stealModalOpen loc \<and> neededChips loc = needed
     \<and> length (tempStrategy loc) = length orig
     \<and> (\<forall>i < length orig.
           tempStrategy loc ! i = orig ! i
           \<or> (cr \<le> int i \<and> 1 \<le> chips (tempStrategy loc ! i)
               \<and> chips (tempStrategy loc ! i) < chips (orig ! i)
               \<and> tempStrategy loc ! i = (orig ! i)\<lparr>chips := chips (tempStrategy loc ! i)\<rparr>))
     \<and> of_int (stolenAmount orig (tempStrategy loc) cr) \<le> needed"

text \<open>A team's resources: its winnings and the chips of all its rounds.\<close>

definition totalResources :: "Team \<Rightarrow> rat" where
  "totalResources t = winnings t + of_int (sum_list (map chips (strategy t)))"

text \<open>Team \<open>A\<close>'s strategy of scenario C after two chips of round 6 and one of round 7 were taken.\<close>

definition stolenExample :: "RoundStrategy list" where
  "stolenExample = exampleStrategy 1 [0, 1, 2, 3, 4, 5, 6, 7, 8, 9] [3, 3, 3, 3, 3, 1, 2, 3, 3, 3]"

text \<open>
  Every member of a team runs the component on the shared room with the team's id and
  with local state of its own. \<open>stealOn called current k idxs\<close> is a member who pressed
  Call on the room \<open>called\<close> and, the dialog still open and the room now being
  \<open>current\<close>, presses the minus buttons \<open>idxs\<close> and then the confirm button.
\<close>

definition stealOn :: "Room \<Rightarrow> Room \<Rightarrow> string \<Rightarrow> nat list \<Rightarrow> (Room \<times> Local) option" where
  "stealOn called current k idxs = do {
     (_, loc) \<leftarrow> handleCall called k exampleLocal;
     loc' \<leftarrow> stealClicks current k loc idxs;
     stealConfirmClick current k loc'
   }"

text \<open>
  Two members of team \<open>A\<close> press Call in scenario C, and both get the dialog. The first
  takes two chips from round 6 and one from round 7 and confirms. The second, whose
  dialog is still open on the copy it made, then takes two chips each from rounds 8, 9
  and 10 and confirms.
\<close>

definition firstAccepted :: "(Room \<times> Local) option" where
  "firstAccepted = stealOn scenarioC scenarioC ''A'' [5, 5, 6]"

definition secondAccepted :: "(Room \<times> Local) option" where
  "secondAccepted = do {
     (room1, _) \<leftarrow> firstAccepted;
     stealOn scenarioC room1 ''A'' [7, 7, 8, 8, 9, 9]
   }"

section \<open>Reading the room after a write\<close>

text \<open>
  Every write replaces the caller's match by one with the same two team ids, and maps
  the teams without changing an id. So after a write the component finds the match it
  wrote, and finds each team by the id it had.
\<close>

lemma at_index_Some:
  "at_index xs i = Some x \<longleftrightarrow> 0 \<le> i \<and> nat i < length xs \<and> xs ! nat i = x"
  by (auto simp: at_index_def)

lemma findIndex_SomeD:
  "findIndex P xs = Some i \<Longrightarrow> i < length xs \<and> P (xs ! i)"
  by (induction xs arbitrary: i) (auto split: if_splits)

lemma findIndex_update:
  "findIndex P xs = Some i \<Longrightarrow> P y \<Longrightarrow> findIndex P (xs[i := y]) = Some i"
proof (induction xs arbitrary: i)
  case Nil
  then show ?case by simp
next
  case (Cons x xs)
  show ?case
  proof (cases "P x")
    case True
    with Cons.prems show ?thesis by simp
  next
    case False
    with Cons.prems obtain j where j: "findIndex P xs = Some j" "i = Suc j"
      by (auto split: if_splits)
    with Cons.IH [OF j(1) Cons.prems(2)] False show ?thesis by simp
  qed
qed

lemma myMatch_SomeD:
  assumes "myMatch room k = Some m"
  obtains i where "myMatchIdx room k = Some i" "i < length (matches room)"
    "matches room ! i = m" "teamAId m = k \<or> teamBId m = k"
  using assms findIndex_SomeD [of "\<lambda>m. teamAId m = k \<or> teamBId m = k" "matches room"]
  by (auto simp: myMatch_def myMatchIdx_def)

lemma myMatch_write:
  assumes m: "myMatch room k = Some m"
    and ids: "teamAId m' = teamAId m" "teamBId m' = teamBId m"
    and idx: "myMatchIdx room k = Some i"
  shows "myMatch (room\<lparr>teams := ts, matches := (matches room)[i := m']\<rparr>) k = Some m'"
    and "myMatch (room\<lparr>matches := (matches room)[i := m']\<rparr>) k = Some m'"
proof -
  from m idx obtain "i < length (matches room)" "teamAId m = k \<or> teamBId m = k"
    by (auto elim!: myMatch_SomeD)
  then have "findIndex (\<lambda>m. teamAId m = k \<or> teamBId m = k) ((matches room)[i := m']) = Some i"
    using idx ids by (intro findIndex_update) (auto simp: myMatchIdx_def)
  then show "myMatch (room\<lparr>teams := ts, matches := (matches room)[i := m']\<rparr>) k = Some m'"
    and "myMatch (room\<lparr>matches := (matches room)[i := m']\<rparr>) k = Some m'"
    using \<open>i < length (matches room)\<close> by (simp_all add: myMatch_def myMatchIdx_def)
qed

lemma updateTeamsAndMatch_read:
  assumes "myMatch room k = Some m"
    and "teamAId (upd m) = teamAId m" "teamBId (upd m) = teamBId m"
  obtains room' where "updateTeamsAndMatch room k ts upd = Some room'"
    "myMatch room' k = Some (upd m)" "teams room' = ts" "status room' = status room"
proof -
  from assms(1) obtain i where i: "myMatchIdx room k = Some i"
    by (auto elim!: myMatch_SomeD)
  let ?r = "room\<lparr>teams := ts, matches := (matches room)[i := upd m]\<rparr>"
  have "updateTeamsAndMatch room k ts upd = Some ?r"
    using assms(1) i by (simp add: updateTeamsAndMatch_def)
  moreover have "myMatch ?r k = Some (upd m)"
    using myMatch_write(1) [OF assms i] .
  ultimately show thesis using that [of ?r] by simp
qed

lemma updateMatchState_read:
  assumes "myMatch room k = Some m"
    and "teamAId (upd m) = teamAId m" "teamBId (upd m) = teamBId m"
  obtains room' where "updateMatchState room k upd = Some room'"
    "myMatch room' k = Some (upd m)" "teams room' = teams room" "status room' = status room"
proof -
  from assms(1) obtain i where i: "myMatchIdx room k = Some i"
    by (auto elim!: myMatch_SomeD)
  let ?r = "room\<lparr>matches := (matches room)[i := upd m]\<rparr>"
  have "updateMatchState room k upd = Some ?r"
    using assms(1) i by (simp add: updateMatchState_def)
  moreover have "myMatch ?r k = Some (upd m)"
    using myMatch_write(2) [OF assms i] .
  ultimately show thesis using that [of ?r] by simp
qed

lemma find_map_same_id:
  assumes "\<And>t. t \<in> set ts \<Longrightarrow> id_t (f t) = id_t t"
  shows "find (\<lambda>t. id_t t = k) (map f ts) = map_option f (find (\<lambda>t. id_t t = k) ts)"
  using assms by (induction ts) auto

lemma find_id: "find (\<lambda>t. id_t t = k) ts = Some t \<Longrightarrow> id_t t = k"
  by (auto simp: find_Some_iff)

lemma team_id: "team room k = Some t \<Longrightarrow> id_t t = k"
  by (auto simp: team_def find_Some_iff)

lemma opponentTeam_id:
  "opponentTeam room k = Some opp \<Longrightarrow> opponentId room k = Some (id_t opp)"
  by (auto simp: opponentTeam_def find_Some_iff split: option.splits)

lemma sides:
  assumes "myMatch room k = Some m"
  shows "isTeamA room k \<longleftrightarrow> teamAId m = k"
    and "opponentTeam room k = team room (if teamAId m = k then teamBId m else teamAId m)"
    and "isMyTurn room k \<longleftrightarrow> turnOwner m = Some k"
  using assms by (simp_all add: isTeamA_def opponentTeam_def opponentId_def team_def isMyTurn_def)

lemma team_map_same_id:
  assumes "\<And>t. t \<in> set (teams room) \<Longrightarrow> id_t (f t) = id_t t"
    and "teams room' = map f (teams room)"
  shows "team room' i = map_option f (team room i)"
  using assms by (simp add: team_def find_map_same_id)

lemma handleFold_write:
  assumes turn: "isMyTurn room k"
    and m: "myMatch room k = Some m"
    and t: "team room k = Some t"
    and opp: "opponentTeam room k = Some opp"
    and ms: "at_index (strategy t) (currentRound m - 1) = Some ms"
    and os: "at_index (strategy opp) (currentRound m - 1) = Some os"
  obtains room' where "handleFold room k = Some room'"
    and "myMatch room' k = Some (m\<lparr>roundStatus := RESULT, turnOwner := None,
          lastAction := Some \<lparr>teamId_l = k, action_l = FOLD\<rparr>,
          lastRoundResult := Some (foldItem m (teamAId m = k) ms os),
          resultConfirmed := Map.empty,
          history := history m @ [foldItem m (teamAId m = k) ms os]\<rparr>)"
    and "teams room' = map (\<lambda>x. if id_t x = id_t opp
          then opp\<lparr>winnings := winnings opp + of_int (chips ms + chips os + carryOver m)\<rparr>
          else x) (teams room)"
    and "status room' = status room"
proof -
  let ?item = "foldItem m (teamAId m = k) ms os"
  let ?upd = "\<lambda>mm. mm\<lparr>roundStatus := RESULT, turnOwner := None,
          lastAction := Some \<lparr>teamId_l = k, action_l = FOLD\<rparr>,
          lastRoundResult := Some ?item,
          resultConfirmed := Map.empty,
          history := history mm @ [?item]\<rparr>"
  let ?ts = "map (\<lambda>x. if id_t x = id_t opp
          then opp\<lparr>winnings := winnings opp + of_int (chips ms + chips os + carryOver m)\<rparr>
          else x) (teams room)"
  have eq: "handleFold room k = updateTeamsAndMatch room k ?ts ?upd"
    using turn m t opp ms os
    by (simp add: handleFold_def Let_def foldItem_def sides(1) [OF m])
  obtain room' where "updateTeamsAndMatch room k ?ts ?upd = Some room'"
    "myMatch room' k = Some (?upd m)" "teams room' = ?ts" "status room' = status room"
    using updateTeamsAndMatch_read [OF m, of ?upd ?ts] by auto
  with eq show thesis using that [of room'] by simp
qed

lemma handleShowdown_write:
  assumes m: "myMatch room k = Some m"
    and st: "roundStatus m = SHOWDOWN"
    and ta: "team room (teamAId m) = Some ta"
    and tb: "team room (teamBId m) = Some tb"
    and sa: "at_index (strategy ta) (currentRound m - 1) = Some sa"
    and sb: "at_index (strategy tb) (currentRound m - 1) = Some sb"
  obtains room' where "handleShowdown room k = Some room'"
    and "myMatch room' k = Some (m\<lparr>roundStatus := RESULT, turnOwner := None, pot := 0,
          carryOver := showdownCarry m sa sb,
          teamAScore := (if card_s sa > card_s sb then teamAScore m + 1 else teamAScore m),
          teamBScore := (if card_s sa < card_s sb then teamBScore m + 1 else teamBScore m),
          lastRoundResult := Some (showdownItem m sa sb),
          resultConfirmed := Map.empty,
          history := history m @ [showdownItem m sa sb]\<rparr>)"
    and "teams room' = map (\<lambda>t. if id_t t = id_t ta then ta\<lparr>winnings := showdownWinningsA m ta sa sb\<rparr>
          else if id_t t = id_t tb then tb\<lparr>winnings := showdownWinningsB m tb sa sb\<rparr> else t) (teams room)"
    and "status room' = status room"
proof -
  let ?upd = "\<lambda>mm. mm\<lparr>roundStatus := RESULT, turnOwner := None, pot := 0,
          carryOver := showdownCarry m sa sb,
          teamAScore := (if card_s sa > card_s sb then teamAScore m + 1 else teamAScore m),
          teamBScore := (if card_s sa < card_s sb then teamBScore m + 1 else teamBScore m),
          lastRoundResult := Some (showdownItem m sa sb),
          resultConfirmed := Map.empty,
          history := history mm @ [showdownItem m sa sb]\<rparr>"
  let ?ts = "map (\<lambda>t. if id_t t = id_t ta then ta\<lparr>winnings := showdownWinningsA m ta sa sb\<rparr>
          else if id_t t = id_t tb then tb\<lparr>winnings := showdownWinningsB m tb sa sb\<rparr> else t) (teams room)"
  have eq: "handleShowdown room k = updateTeamsAndMatch room k ?ts ?upd"
    using m st ta tb sa sb
    by (simp add: handleShowdown_def Let_def showdownItem_def showdownWinningsA_def
        showdownWinningsB_def showdownCarry_def team_def cong del: if_weak_cong)
  obtain room' where "updateTeamsAndMatch room k ?ts ?upd = Some room'"
    "myMatch room' k = Some (?upd m)" "teams room' = ?ts" "status room' = status room"
    using updateTeamsAndMatch_read [OF m, of ?upd ?ts] by auto
  with eq show thesis using that [of room'] by simp
qed

section \<open>Fold\<close>

lemma opponentTeam_team:
  "opponentTeam room k = Some opp \<Longrightarrow> team room (id_t opp) = Some opp"
  by (auto simp: opponentTeam_def team_def find_Some_iff split: option.splits)

lemma handleFold_read:
  assumes turn: "isMyTurn room k"
    and m: "myMatch room k = Some m"
    and t: "team room k = Some t"
    and opp: "opponentTeam room k = Some opp"
    and ms: "at_index (strategy t) (currentRound m - 1) = Some ms"
    and os: "at_index (strategy opp) (currentRound m - 1) = Some os"
    and ne: "id_t opp \<noteq> k"
  obtains room' m' where "handleFold room k = Some room'"
    and "myMatch room' k = Some m'"
    and "lastRoundResult m' = Some (foldItem m (teamAId m = k) ms os)"
    and "roundStatus m' = RESULT" and "carryOver m' = carryOver m"
    and "currentRound m' = currentRound m"
    and "team room' k = Some t"
    and "team room' (id_t opp) =
           Some (opp\<lparr>winnings := winnings opp + of_int (chips ms + chips os + carryOver m)\<rparr>)"
proof (rule handleFold_write [OF turn m t opp ms os])
  fix room'
  let ?f = "\<lambda>x. if id_t x = id_t opp
          then opp\<lparr>winnings := winnings opp + of_int (chips ms + chips os + carryOver m)\<rparr>
          else x"
  let ?m' = "m\<lparr>roundStatus := RESULT, turnOwner := None,
          lastAction := Some \<lparr>teamId_l = k, action_l = FOLD\<rparr>,
          lastRoundResult := Some (foldItem m (teamAId m = k) ms os),
          resultConfirmed := Map.empty,
          history := history m @ [foldItem m (teamAId m = k) ms os]\<rparr>"
  assume w: "handleFold room k = Some room'"
    and m': "myMatch room' k = Some ?m'"
    and ts: "teams room' = map ?f (teams room)"
  have rd: "team room' i = map_option ?f (team room i)" for i
    using ts by (intro team_map_same_id) auto
  have "team room' k = Some t"
    using rd [of k] t ne team_id [OF t] by simp
  moreover have "team room' (id_t opp) =
      Some (opp\<lparr>winnings := winnings opp + of_int (chips ms + chips os + carryOver m)\<rparr>)"
    using rd [of "id_t opp"] opponentTeam_team [OF opp] by simp
  ultimately show thesis
    using w m' by (intro that [of room' ?m']) simp_all
qed

lemma handleFold_carryOver:
  assumes "isMyTurn room k" "myMatch room k = Some m" "team room k = Some t"
    and "opponentTeam room k = Some opp"
    and "at_index (strategy t) (currentRound m - 1) = Some ms"
    and "at_index (strategy opp) (currentRound m - 1) = Some os"
  shows "map_option carryOver (matchAfter (handleFold room k) k) = Some (carryOver m)"
    and "map_option pot (matchAfter (handleFold room k) k) = Some (pot m)"
  by (rule handleFold_write [OF assms], simp add: matchAfter_def)+

text \<open>
  C1. A fold by the turn owner in DECISION pays the pot (own chips, opponent's chips and
  the carry-over) to the opponent, records \<open>A_FOLDED\<close> or \<open>B_FOLDED\<close> with that pot as
  \<open>potWon\<close>, and moves the match to RESULT; the carry-over should then be 0. In Scenario C
  (round 5, 3 chips against 6, carry-over 1) \<^const>\<open>handleFold\<close> does all of that except the
  last: the update it writes has no \<open>carryOver\<close> field, so the carry-over it has just
  paid out is still 1 (\<^verbatim>\<open>handleShowdown\<close> writes \<open>carryOver\<close> on every path).
\<close>

theorem handleFold_scenarioC:
  "map_option winnings (teamAfter (handleFold scenarioC ''A'') ''B'') = Some 10
   \<and> map_option winnings (teamAfter (handleFold scenarioC ''A'') ''A'') = Some 0
   \<and> map_option result (resultAfter (handleFold scenarioC ''A'') ''A'') = Some A_FOLDED
   \<and> map_option potWon (resultAfter (handleFold scenarioC ''A'') ''A'') = Some 10
   \<and> map_option roundStatus (matchAfter (handleFold scenarioC ''A'') ''A'') = Some RESULT
   \<and> map_option currentRound (matchAfter (handleFold scenarioC ''A'') ''A'') = Some 5
   \<and> map_option carryOver (matchAfter (handleFold scenarioC ''A'') ''A'') = Some 1"
  by code_simp

text \<open>
  The carry-over that survives the fold is paid again: both teams confirm, round 6 has
  3 chips on each side, and its showdown (card 5 against 4) gives team \<open>A\<close> a pot of 7.
\<close>

lemma carryOver_paid_twice_after_fold:
  "map_option potWon (resultAfter
     (thenDo (thenDo (thenDo (thenDo (handleFold scenarioC ''A'')
        handleConfirmResult ''A'') handleConfirmResult ''B'')
        readyEvaluation ''A'') handleShowdown ''B'') ''A'') = Some 7
   \<and> map_option currentRound (matchAfter
     (thenDo (thenDo (thenDo (thenDo (handleFold scenarioC ''A'')
        handleConfirmResult ''A'') handleConfirmResult ''B'')
        readyEvaluation ''A'') handleShowdown ''B'') ''A'') = Some 6"
  by code_simp

section \<open>Showdown\<close>

lemma handleShowdown_read:
  assumes m: "myMatch room k = Some m"
    and st: "roundStatus m = SHOWDOWN"
    and ne: "teamAId m \<noteq> teamBId m"
    and ta: "team room (teamAId m) = Some ta"
    and tb: "team room (teamBId m) = Some tb"
    and sa: "at_index (strategy ta) (currentRound m - 1) = Some sa"
    and sb: "at_index (strategy tb) (currentRound m - 1) = Some sb"
  obtains room' m' where "handleShowdown room k = Some room'"
    and "myMatch room' k = Some m'"
    and "lastRoundResult m' = Some (showdownItem m sa sb)"
    and "roundStatus m' = RESULT" and "carryOver m' = showdownCarry m sa sb"
    and "currentRound m' = currentRound m"
    and "team room' (teamAId m) = Some (ta\<lparr>winnings := showdownWinningsA m ta sa sb\<rparr>)"
    and "team room' (teamBId m) = Some (tb\<lparr>winnings := showdownWinningsB m tb sa sb\<rparr>)"
proof (rule handleShowdown_write [OF m st ta tb sa sb])
  fix room'
  let ?f = "\<lambda>t. if id_t t = id_t ta then ta\<lparr>winnings := showdownWinningsA m ta sa sb\<rparr>
          else if id_t t = id_t tb then tb\<lparr>winnings := showdownWinningsB m tb sa sb\<rparr> else t"
  let ?m' = "m\<lparr>roundStatus := RESULT, turnOwner := None, pot := 0,
          carryOver := showdownCarry m sa sb,
          teamAScore := (if card_s sa > card_s sb then teamAScore m + 1 else teamAScore m),
          teamBScore := (if card_s sa < card_s sb then teamBScore m + 1 else teamBScore m),
          lastRoundResult := Some (showdownItem m sa sb),
          resultConfirmed := Map.empty,
          history := history m @ [showdownItem m sa sb]\<rparr>"
  assume w: "handleShowdown room k = Some room'"
    and m': "myMatch room' k = Some ?m'"
    and ts: "teams room' = map ?f (teams room)"
  have rd: "team room' i = map_option ?f (team room i)" for i
    using ts by (intro team_map_same_id) auto
  have "team room' (teamAId m) = Some (ta\<lparr>winnings := showdownWinningsA m ta sa sb\<rparr>)"
    using rd [of "teamAId m"] ta by simp
  moreover have "team room' (teamBId m) = Some (tb\<lparr>winnings := showdownWinningsB m tb sa sb\<rparr>)"
    using rd [of "teamBId m"] tb ne team_id [OF ta] team_id [OF tb] by simp
  ultimately show thesis
    using w m' by (intro that [of room' ?m']) simp_all
qed

lemma half_in_Ints: "(of_int a + of_int c / 2 :: rat) \<in> \<int> \<longleftrightarrow> even c"
proof
  assume "(of_int a + of_int c / 2 :: rat) \<in> \<int>"
  then have "(of_int a + of_int c / 2 :: rat) - of_int a \<in> \<int>"
    by (intro Ints_diff) simp_all
  then have "(of_int c / 2 :: rat) \<in> \<int>" by simp
  then obtain z where "(of_int c / 2 :: rat) = of_int z" by (auto elim: Ints_cases)
  then have "(of_int c :: rat) = of_int (2 * z)" by simp
  then have "c = 2 * z" by (simp only: of_int_eq_iff)
  then show "even c" by simp
next
  assume "even c"
  then obtain d where "c = 2 * d" by (auto elim: evenE)
  then have "(of_int a + of_int c / 2 :: rat) = of_int (a + d)" by simp
  then show "(of_int a + of_int c / 2 :: rat) \<in> \<int>" by (simp only: Ints_of_int)
qed

text \<open>
  On a showdown draw in the final round \<^verbatim>\<open>handleShowdown\<close> adds to each team's winnings
  its own chips of the round and half the carry-over (``each team takes back their own
  chips''); nothing is rounded, so the gain is an integer exactly when the carry-over is
  even.
\<close>

lemma final_draw_own_chips:
  assumes m: "myMatch room k = Some m"
    and st: "roundStatus m = SHOWDOWN"
    and ne: "teamAId m \<noteq> teamBId m"
    and ta: "team room (teamAId m) = Some ta"
    and tb: "team room (teamBId m) = Some tb"
    and sa: "at_index (strategy ta) (currentRound m - 1) = Some sa"
    and sb: "at_index (strategy tb) (currentRound m - 1) = Some sb"
    and final: "currentRound m = TOTAL_ROUNDS"
    and draw: "card_s sa = card_s sb"
  obtains room' m' rr ta' tb' where
    "handleShowdown room k = Some room'" and "myMatch room' k = Some m'"
    and "lastRoundResult m' = Some rr"
    and "team room' (teamAId m) = Some ta'" and "team room' (teamBId m) = Some tb'"
    and "roundStatus m' = RESULT" and "result rr = DRAW" and "potWon rr = 0"
    and "winnings ta' = winnings ta + (of_int (chips sa) + of_int (carryOver m) / 2)"
    and "winnings tb' = winnings tb + (of_int (chips sb) + of_int (carryOver m) / 2)"
proof (rule handleShowdown_read [OF m st ne ta tb sa sb])
  fix room' m'
  assume w: "handleShowdown room k = Some room'" "myMatch room' k = Some m'"
    "lastRoundResult m' = Some (showdownItem m sa sb)" "roundStatus m' = RESULT"
    "team room' (teamAId m) = Some (ta\<lparr>winnings := showdownWinningsA m ta sa sb\<rparr>)"
    "team room' (teamBId m) = Some (tb\<lparr>winnings := showdownWinningsB m tb sa sb\<rparr>)"
  have wa: "showdownWinningsA m ta sa sb = winnings ta + (of_int (chips sa) + of_int (carryOver m) / 2)"
    using final draw by (simp add: showdownWinningsA_def)
  have wb: "showdownWinningsB m tb sa sb = winnings tb + (of_int (chips sb) + of_int (carryOver m) / 2)"
    using final draw by (simp add: showdownWinningsB_def)
  have item: "result (showdownItem m sa sb) = DRAW" "potWon (showdownItem m sa sb) = 0"
    using draw by (simp_all add: showdownItem_def)
  show thesis
    using w item wa wb
    by (intro that [of room' m' "showdownItem m sa sb"
          "ta\<lparr>winnings := showdownWinningsA m ta sa sb\<rparr>"
          "tb\<lparr>winnings := showdownWinningsB m tb sa sb\<rparr>"]) simp_all
qed

text \<open>
  The final round is in SHOWDOWN with the two teams holding the same chips in it: the
  automatic evaluation writes SHOWDOWN only on equal chips, a funded call first raises
  the caller's chips to the opponent's, and in the final round no steal is accepted: the
  dialog counts the chips taken from the rounds after the current one, there is none,
  and the dialog is opened with a positive amount to cover.
\<close>

lemma stolenAmount_last_round:
  assumes "int (length orig) \<le> cr"
  shows "stolenAmount orig tmp cr = 0"
proof -
  have "(\<Sum>i\<leftarrow>[0..<length orig].
          if cr \<le> int i \<and> i < length tmp then chips (orig ! i) - chips (tmp ! i) else 0)
        = (\<Sum>i\<leftarrow>[0..<length orig]. 0)"
    using assms by (intro arg_cong [where f = sum_list] map_cong) auto
  then show ?thesis by (simp add: stolenAmount_def)
qed

lemma no_steal_in_last_round:
  assumes m: "myMatch room k = Some m" and t: "team room k = Some t"
    and final: "currentRound m = TOTAL_ROUNDS"
    and len: "int (length (strategy t)) \<le> TOTAL_ROUNDS"
    and needed: "0 < neededChips loc"
  shows "stealConfirmClick room k loc = Some (room, loc)"
proof -
  have "calculateStolenAmount room k loc = 0"
    using m t final len by (simp add: calculateStolenAmount_def stolenAmount_last_round)
  with needed have "\<not> canConfirmSteal room k loc"
    by (simp add: canConfirmSteal_def)
  then show ?thesis by (simp add: stealConfirmClick_def)
qed

text \<open>
  C4. On a showdown draw in the final round, the match being in SHOWDOWN with the same
  chips on both sides, the pot (both teams' chips and the carry-over) is split evenly:
  each team's winnings grow by half the pot, the result is \<open>DRAW\<close> with \<open>potWon = 0\<close>, and
  the match is in RESULT. The halving is not rounded: the gain is an integer exactly
  when the pot is even, so an odd pot gives fractional winnings.
\<close>

theorem final_draw_even_split:
  assumes m: "myMatch room k = Some m"
    and st: "roundStatus m = SHOWDOWN"
    and ne: "teamAId m \<noteq> teamBId m"
    and ta: "team room (teamAId m) = Some ta"
    and tb: "team room (teamBId m) = Some tb"
    and sa: "at_index (strategy ta) (currentRound m - 1) = Some sa"
    and sb: "at_index (strategy tb) (currentRound m - 1) = Some sb"
    and final: "currentRound m = TOTAL_ROUNDS"
    and draw: "card_s sa = card_s sb"
    and equal: "chips sa = chips sb"
  shows "\<exists>room' m' rr ta' tb'.
           handleShowdown room k = Some room' \<and> myMatch room' k = Some m'
           \<and> lastRoundResult m' = Some rr
           \<and> team room' (teamAId m) = Some ta' \<and> team room' (teamBId m) = Some tb'
           \<and> roundStatus m' = RESULT \<and> result rr = DRAW \<and> potWon rr = 0
           \<and> winnings ta' = winnings ta + of_int (chips sa + chips sb + carryOver m) / 2
           \<and> winnings tb' = winnings tb + of_int (chips sa + chips sb + carryOver m) / 2
           \<and> (winnings ta' - winnings ta \<in> \<int> \<longleftrightarrow> even (chips sa + chips sb + carryOver m))
           \<and> (winnings tb' - winnings tb \<in> \<int> \<longleftrightarrow> even (chips sa + chips sb + carryOver m))"
proof (rule final_draw_own_chips [OF m st ne ta tb sa sb final draw])
  fix room' m' rr ta' tb'
  assume w: "handleShowdown room k = Some room'" "myMatch room' k = Some m'"
    "lastRoundResult m' = Some rr"
    "team room' (teamAId m) = Some ta'" "team room' (teamBId m) = Some tb'"
    "roundStatus m' = RESULT" "result rr = DRAW" "potWon rr = 0"
    and wa: "winnings ta' = winnings ta + (of_int (chips sa) + of_int (carryOver m) / 2)"
    and wb: "winnings tb' = winnings tb + (of_int (chips sb) + of_int (carryOver m) / 2)"
  have half: "(of_int (chips sb) + of_int (carryOver m) / 2 :: rat)
      = of_int (chips sa + chips sb + carryOver m) / 2"
    using equal by (simp add: field_simps)
  have parity: "even (chips sa + chips sb + carryOver m) \<longleftrightarrow> even (carryOver m)"
    using equal by simp
  have ga: "winnings ta' - winnings ta = of_int (chips sb) + of_int (carryOver m) / 2"
    using wa equal by simp
  have gb: "winnings tb' - winnings tb = of_int (chips sb) + of_int (carryOver m) / 2"
    using wb by simp
  have ia: "winnings ta' - winnings ta \<in> \<int> \<longleftrightarrow> even (chips sa + chips sb + carryOver m)"
    unfolding ga parity by (rule half_in_Ints)
  have ib: "winnings tb' - winnings tb \<in> \<int> \<longleftrightarrow> even (chips sa + chips sb + carryOver m)"
    unfolding gb parity by (rule half_in_Ints)
  have sa': "winnings ta' = winnings ta + of_int (chips sa + chips sb + carryOver m) / 2"
    using wa equal half by simp
  have sb': "winnings tb' = winnings tb + of_int (chips sa + chips sb + carryOver m) / 2"
    using wb half by simp
  show ?thesis
    using w sa' sb' ia ib
    by (intro exI [of _ room'] exI [of _ m'] exI [of _ rr] exI [of _ ta'] exI [of _ tb']) simp
qed

theorem final_draw_even_split_witness:
  "map_option winnings (teamAfter (handleShowdown oddCarryFinalDraw ''A'') ''A'') = Some (9 / 2)
   \<and> map_option winnings (teamAfter (handleShowdown oddCarryFinalDraw ''A'') ''B'') = Some (9 / 2)
   \<and> map_option result (resultAfter (handleShowdown oddCarryFinalDraw ''A'') ''A'') = Some DRAW
   \<and> map_option potWon (resultAfter (handleShowdown oddCarryFinalDraw ''A'') ''A'') = Some 0
   \<and> map_option roundStatus (matchAfter (handleShowdown oddCarryFinalDraw ''A'') ''A'') = Some RESULT"
proof -
  let ?m = "exampleMatch 10 SHOWDOWN None 1"
  let ?ta = "exampleTeam ''A'' 0 [0, 1, 2, 3, 4, 5, 6, 8, 9, 7] [3, 3, 3, 3, 3, 3, 3, 3, 2, 4]"
  let ?tb = "exampleTeam ''B'' 0 [9, 8, 6, 5, 4, 3, 2, 1, 0, 7] [1, 2, 2, 2, 6, 3, 3, 3, 4, 4]"
  let ?sa = "\<lparr>round_s = 10, card_s = 7, chips = 4\<rparr>"
  let ?sb = "\<lparr>round_s = 10, card_s = 7, chips = 4\<rparr>"
  have m: "myMatch oddCarryFinalDraw ''A'' = Some ?m"
    by (simp add: oddCarryFinalDraw_def exampleRoom_def myMatch_def myMatchIdx_def exampleMatch_def)
  have st: "roundStatus ?m = SHOWDOWN" and ne: "teamAId ?m \<noteq> teamBId ?m"
    and final: "currentRound ?m = TOTAL_ROUNDS"
    by (simp_all add: exampleMatch_def TOTAL_ROUNDS_def)
  have ta: "team oddCarryFinalDraw (teamAId ?m) = Some ?ta"
    and tb: "team oddCarryFinalDraw (teamBId ?m) = Some ?tb"
    by (simp_all add: oddCarryFinalDraw_def exampleRoom_def team_def exampleMatch_def exampleTeam_def)
  have sa: "at_index (strategy ?ta) (currentRound ?m - 1) = Some ?sa"
    and sb: "at_index (strategy ?tb) (currentRound ?m - 1) = Some ?sb"
    by (simp_all add: exampleTeam_def exampleMatch_def at_index_def)
  have draw: "card_s ?sa = card_s ?sb" and equal: "chips ?sa = chips ?sb" by simp_all
  from final_draw_even_split [OF m st ne ta tb sa sb final draw equal]
  obtain room' m' rr ta' tb' where
    "handleShowdown oddCarryFinalDraw ''A'' = Some room'" "myMatch room' ''A'' = Some m'"
    "lastRoundResult m' = Some rr"
    "team room' (teamAId ?m) = Some ta'" "team room' (teamBId ?m) = Some tb'"
    "roundStatus m' = RESULT" "result rr = DRAW" "potWon rr = 0"
    "winnings ta' = winnings ?ta + of_int (chips ?sa + chips ?sb + carryOver ?m) / 2"
    "winnings tb' = winnings ?tb + of_int (chips ?sa + chips ?sb + carryOver ?m) / 2"
    by blast
  then show ?thesis
    by (simp add: teamAfter_def resultAfter_def matchAfter_def exampleMatch_def exampleTeam_def)
qed

text \<open>In Scenario B the pot of 10 leaves each team 5.\<close>

lemma final_draw_scenarioB:
  "map_option winnings (teamAfter (handleShowdown scenarioB ''A'') ''A'') = Some 5
   \<and> map_option winnings (teamAfter (handleShowdown scenarioB ''A'') ''B'') = Some 5
   \<and> map_option result (resultAfter (handleShowdown scenarioB ''A'') ''A'') = Some DRAW
   \<and> map_option potWon (resultAfter (handleShowdown scenarioB ''A'') ''A'') = Some 0"
  by code_simp

section \<open>Pot conservation\<close>

text \<open>
  C5, as amended. After a fold or a showdown with a winner, the winner's winnings grow by
  exactly \<open>potWon\<close>, which is the two teams' chips of the round plus the carry-over
  before, and the loser's do not change. On every draw \<open>potWon\<close> is 0: on a draw before
  the final round no winnings change and the carry-over becomes the two teams' chips
  plus the carry-over before; on a draw in the final round the two teams' gains add up
  to the pot.
\<close>

theorem pot_conservation:
  assumes m: "myMatch room k = Some m"
    and ne: "teamAId m \<noteq> teamBId m"
    and ta: "team room (teamAId m) = Some ta"
    and tb: "team room (teamBId m) = Some tb"
    and sa: "at_index (strategy ta) (currentRound m - 1) = Some sa"
    and sb: "at_index (strategy tb) (currentRound m - 1) = Some sb"
  shows "(isMyTurn room k \<longrightarrow>
          (\<exists>room' m' rr ta' tb'.
             handleFold room k = Some room' \<and> myMatch room' k = Some m'
             \<and> lastRoundResult m' = Some rr
             \<and> team room' (teamAId m) = Some ta' \<and> team room' (teamBId m) = Some tb'
             \<and> potWon rr = chips sa + chips sb + carryOver m
             \<and> (if teamAId m = k
                 then result rr = A_FOLDED \<and> winnings tb' - winnings tb = of_int (potWon rr)
                      \<and> winnings ta' = winnings ta
                 else result rr = B_FOLDED \<and> winnings ta' - winnings ta = of_int (potWon rr)
                      \<and> winnings tb' = winnings tb)))
       \<and> (roundStatus m = SHOWDOWN \<longrightarrow>
          (\<exists>room' m' rr ta' tb'.
             handleShowdown room k = Some room' \<and> myMatch room' k = Some m'
             \<and> lastRoundResult m' = Some rr
             \<and> team room' (teamAId m) = Some ta' \<and> team room' (teamBId m) = Some tb'
             \<and> (card_s sa > card_s sb \<longrightarrow>
                  result rr = A_WON \<and> potWon rr = chips sa + chips sb + carryOver m
                  \<and> winnings ta' - winnings ta = of_int (potWon rr) \<and> winnings tb' = winnings tb)
             \<and> (card_s sb > card_s sa \<longrightarrow>
                  result rr = B_WON \<and> potWon rr = chips sa + chips sb + carryOver m
                  \<and> winnings tb' - winnings tb = of_int (potWon rr) \<and> winnings ta' = winnings ta)
             \<and> (card_s sa = card_s sb \<longrightarrow> result rr = DRAW \<and> potWon rr = 0)
             \<and> (card_s sa = card_s sb \<and> currentRound m \<noteq> TOTAL_ROUNDS \<longrightarrow>
                  winnings ta' = winnings ta \<and> winnings tb' = winnings tb
                  \<and> carryOver m' = chips sa + chips sb + carryOver m)
             \<and> (card_s sa = card_s sb \<and> currentRound m = TOTAL_ROUNDS \<longrightarrow>
                  (winnings ta' - winnings ta) + (winnings tb' - winnings tb)
                    = of_int (chips sa + chips sb + carryOver m))))"
proof (intro conjI impI)
  assume turn: "isMyTurn room k"
  from m have side: "teamAId m = k \<or> teamBId m = k"
    by (auto elim: myMatch_SomeD)
  show "\<exists>room' m' rr ta' tb'.
             handleFold room k = Some room' \<and> myMatch room' k = Some m'
             \<and> lastRoundResult m' = Some rr
             \<and> team room' (teamAId m) = Some ta' \<and> team room' (teamBId m) = Some tb'
             \<and> potWon rr = chips sa + chips sb + carryOver m
             \<and> (if teamAId m = k
                 then result rr = A_FOLDED \<and> winnings tb' - winnings tb = of_int (potWon rr)
                      \<and> winnings ta' = winnings ta
                 else result rr = B_FOLDED \<and> winnings ta' - winnings ta = of_int (potWon rr)
                      \<and> winnings tb' = winnings tb)"
  proof (cases "teamAId m = k")
    case True
    have t: "team room k = Some ta" using ta True by simp
    have opp: "opponentTeam room k = Some tb" using sides(2) [OF m] True tb by simp
    have ne': "id_t tb \<noteq> k" using team_id [OF tb] ne True by simp
    show ?thesis
    proof (rule handleFold_read [OF turn m t opp sa sb ne'])
      fix room' m'
      assume "handleFold room k = Some room'" "myMatch room' k = Some m'"
        "lastRoundResult m' = Some (foldItem m (teamAId m = k) sa sb)"
        "team room' k = Some ta"
        "team room' (id_t tb) =
           Some (tb\<lparr>winnings := winnings tb + of_int (chips sa + chips sb + carryOver m)\<rparr>)"
      then show ?thesis
        using True team_id [OF tb]
        by (intro exI [of _ room'] exI [of _ m'] exI [of _ "foldItem m (teamAId m = k) sa sb"]
            exI [of _ ta]
            exI [of _ "tb\<lparr>winnings := winnings tb + of_int (chips sa + chips sb + carryOver m)\<rparr>"])
          (simp add: foldItem_def)
    qed
  next
    case False
    with side have B: "teamBId m = k" by simp
    have t: "team room k = Some tb" using tb B by simp
    have opp: "opponentTeam room k = Some ta" using sides(2) [OF m] False ta by simp
    have ne': "id_t ta \<noteq> k" using team_id [OF ta] ne B by simp
    show ?thesis
    proof (rule handleFold_read [OF turn m t opp sb sa ne'])
      fix room' m'
      assume "handleFold room k = Some room'" "myMatch room' k = Some m'"
        "lastRoundResult m' = Some (foldItem m (teamAId m = k) sb sa)"
        "team room' k = Some tb"
        "team room' (id_t ta) =
           Some (ta\<lparr>winnings := winnings ta + of_int (chips sb + chips sa + carryOver m)\<rparr>)"
      then show ?thesis
        using False B team_id [OF ta]
        by (intro exI [of _ room'] exI [of _ m'] exI [of _ "foldItem m (teamAId m = k) sb sa"]
            exI [of _ "ta\<lparr>winnings := winnings ta + of_int (chips sb + chips sa + carryOver m)\<rparr>"]
            exI [of _ tb])
          (simp add: foldItem_def)
    qed
  qed
next
  assume st: "roundStatus m = SHOWDOWN"
  show "\<exists>room' m' rr ta' tb'.
             handleShowdown room k = Some room' \<and> myMatch room' k = Some m'
             \<and> lastRoundResult m' = Some rr
             \<and> team room' (teamAId m) = Some ta' \<and> team room' (teamBId m) = Some tb'
             \<and> (card_s sa > card_s sb \<longrightarrow>
                  result rr = A_WON \<and> potWon rr = chips sa + chips sb + carryOver m
                  \<and> winnings ta' - winnings ta = of_int (potWon rr) \<and> winnings tb' = winnings tb)
             \<and> (card_s sb > card_s sa \<longrightarrow>
                  result rr = B_WON \<and> potWon rr = chips sa + chips sb + carryOver m
                  \<and> winnings tb' - winnings tb = of_int (potWon rr) \<and> winnings ta' = winnings ta)
             \<and> (card_s sa = card_s sb \<longrightarrow> result rr = DRAW \<and> potWon rr = 0)
             \<and> (card_s sa = card_s sb \<and> currentRound m \<noteq> TOTAL_ROUNDS \<longrightarrow>
                  winnings ta' = winnings ta \<and> winnings tb' = winnings tb
                  \<and> carryOver m' = chips sa + chips sb + carryOver m)
             \<and> (card_s sa = card_s sb \<and> currentRound m = TOTAL_ROUNDS \<longrightarrow>
                  (winnings ta' - winnings ta) + (winnings tb' - winnings tb)
                    = of_int (chips sa + chips sb + carryOver m))"
  proof (rule handleShowdown_read [OF m st ne ta tb sa sb])
    fix room' m'
    assume "handleShowdown room k = Some room'" "myMatch room' k = Some m'"
      "lastRoundResult m' = Some (showdownItem m sa sb)"
      "carryOver m' = showdownCarry m sa sb"
      "team room' (teamAId m) = Some (ta\<lparr>winnings := showdownWinningsA m ta sa sb\<rparr>)"
      "team room' (teamBId m) = Some (tb\<lparr>winnings := showdownWinningsB m tb sa sb\<rparr>)"
    then show ?thesis
      by (intro exI [of _ room'] exI [of _ m'] exI [of _ "showdownItem m sa sb"]
          exI [of _ "ta\<lparr>winnings := showdownWinningsA m ta sa sb\<rparr>"]
          exI [of _ "tb\<lparr>winnings := showdownWinningsB m tb sa sb\<rparr>"])
        (simp add: showdownItem_def showdownWinningsA_def showdownWinningsB_def showdownCarry_def)
  qed
qed

theorem pot_conservation_witness:
  "map_option winnings (teamAfter (handleFold scenarioC ''A'') ''B'') = Some 10
   \<and> map_option winnings (teamAfter (handleFold scenarioC ''A'') ''A'') = Some 0
   \<and> map_option potWon (resultAfter (handleFold scenarioC ''A'') ''A'') = Some 10
   \<and> map_option result (resultAfter (handleFold scenarioC ''A'') ''A'') = Some A_FOLDED
   \<and> map_option winnings (teamAfter (handleShowdown scenarioA_showdown ''B'') ''A'') = Some 17
   \<and> map_option winnings (teamAfter (handleShowdown scenarioA_showdown ''B'') ''B'') = Some 0
   \<and> map_option potWon (resultAfter (handleShowdown scenarioA_showdown ''B'') ''B'') = Some 10
   \<and> map_option result (resultAfter (handleShowdown scenarioA_showdown ''B'') ''B'') = Some A_WON"
proof -
  let ?m = "exampleMatch 5 DECISION (Some ''A'') 1"
  let ?ta = "exampleTeam ''A'' 0 [0, 1, 2, 3, 4, 5, 6, 7, 8, 9] [3, 3, 3, 3, 3, 3, 3, 3, 3, 3]"
  let ?tb = "exampleTeam ''B'' 0 [9, 8, 7, 6, 5, 4, 3, 2, 1, 0] [1, 2, 2, 2, 6, 3, 3, 3, 3, 5]"
  let ?sa = "\<lparr>round_s = 5, card_s = 4, chips = 3\<rparr>"
  let ?sb = "\<lparr>round_s = 5, card_s = 5, chips = 6\<rparr>"
  have m: "myMatch scenarioC ''A'' = Some ?m"
    by (simp add: scenarioC_def exampleRoom_def myMatch_def myMatchIdx_def exampleMatch_def)
  have ne: "teamAId ?m \<noteq> teamBId ?m" and A: "teamAId ?m = ''A''"
    by (simp_all add: exampleMatch_def)
  have ta: "team scenarioC (teamAId ?m) = Some ?ta" and tb: "team scenarioC (teamBId ?m) = Some ?tb"
    by (simp_all add: scenarioC_def exampleRoom_def team_def exampleMatch_def exampleTeam_def)
  have sa: "at_index (strategy ?ta) (currentRound ?m - 1) = Some ?sa"
    and sb: "at_index (strategy ?tb) (currentRound ?m - 1) = Some ?sb"
    by (simp_all add: exampleTeam_def exampleMatch_def at_index_def)
  have turn: "isMyTurn scenarioC ''A''"
    using m by (simp add: isMyTurn_def exampleMatch_def)
  from pot_conservation [OF m ne ta tb sa sb] turn A
  obtain room' m' rr ta' tb' where
    "handleFold scenarioC ''A'' = Some room'" "myMatch room' ''A'' = Some m'"
    "lastRoundResult m' = Some rr"
    "team room' (teamAId ?m) = Some ta'" "team room' (teamBId ?m) = Some tb'"
    "potWon rr = chips ?sa + chips ?sb + carryOver ?m"
    "result rr = A_FOLDED" "winnings tb' - winnings ?tb = of_int (potWon rr)"
    "winnings ta' = winnings ?ta"
    by auto
  then have fold: "map_option winnings (teamAfter (handleFold scenarioC ''A'') ''B'') = Some 10
     \<and> map_option winnings (teamAfter (handleFold scenarioC ''A'') ''A'') = Some 0
     \<and> map_option potWon (resultAfter (handleFold scenarioC ''A'') ''A'') = Some 10
     \<and> map_option result (resultAfter (handleFold scenarioC ''A'') ''A'') = Some A_FOLDED"
    by (simp add: teamAfter_def resultAfter_def matchAfter_def exampleMatch_def exampleTeam_def)
  let ?n = "exampleMatch 3 SHOWDOWN None 0"
  let ?ua = "exampleTeam ''A'' 7 [0, 1, 5, 2, 3, 4, 6, 7, 8, 9] [3, 3, 5, 3, 3, 3, 3, 3, 3, 4]"
  let ?ub = "exampleTeam ''B'' 0 [9, 8, 3, 7, 6, 5, 4, 2, 1, 0] [1, 2, 5, 2, 6, 3, 3, 3, 3, 2]"
  let ?ra = "\<lparr>round_s = 3, card_s = 5, chips = 5\<rparr>"
  let ?rb = "\<lparr>round_s = 3, card_s = 3, chips = 5\<rparr>"
  have n: "myMatch scenarioA_showdown ''B'' = Some ?n"
    by (simp add: scenarioA_showdown_def exampleRoom_def myMatch_def myMatchIdx_def exampleMatch_def)
  have ne2: "teamAId ?n \<noteq> teamBId ?n" and st: "roundStatus ?n = SHOWDOWN"
    by (simp_all add: exampleMatch_def)
  have ua: "team scenarioA_showdown (teamAId ?n) = Some ?ua"
    and ub: "team scenarioA_showdown (teamBId ?n) = Some ?ub"
    by (simp_all add: scenarioA_showdown_def exampleRoom_def team_def exampleMatch_def exampleTeam_def)
  have ra: "at_index (strategy ?ua) (currentRound ?n - 1) = Some ?ra"
    and rb: "at_index (strategy ?ub) (currentRound ?n - 1) = Some ?rb"
    by (simp_all add: exampleTeam_def exampleMatch_def at_index_def)
  from pot_conservation [OF n ne2 ua ub ra rb] st
  obtain room2 m2 rr2 ta2 tb2 where
    "handleShowdown scenarioA_showdown ''B'' = Some room2" "myMatch room2 ''B'' = Some m2"
    "lastRoundResult m2 = Some rr2"
    "team room2 (teamAId ?n) = Some ta2" "team room2 (teamBId ?n) = Some tb2"
    "result rr2 = A_WON" "potWon rr2 = chips ?ra + chips ?rb + carryOver ?n"
    "winnings ta2 - winnings ?ua = of_int (potWon rr2)" "winnings tb2 = winnings ?ub"
    by auto
  then have "map_option winnings (teamAfter (handleShowdown scenarioA_showdown ''B'') ''A'') = Some 17
     \<and> map_option winnings (teamAfter (handleShowdown scenarioA_showdown ''B'') ''B'') = Some 0
     \<and> map_option potWon (resultAfter (handleShowdown scenarioA_showdown ''B'') ''B'') = Some 10
     \<and> map_option result (resultAfter (handleShowdown scenarioA_showdown ''B'') ''B'') = Some A_WON"
    by (simp add: teamAfter_def resultAfter_def matchAfter_def exampleMatch_def exampleTeam_def)
  with fold show ?thesis by simp
qed

text \<open>
  The claim as stated takes \<open>potWon\<close> to be the pot on every resolution but a draw
  before the final round. In Scenario B, a draw in the final round, the pot is
  \<open>4 + 4 + 2\<close> and \<open>potWon\<close> is 0.
\<close>

theorem final_draw_potWon_zero:
  "map_option potWon (resultAfter (handleShowdown scenarioB ''A'') ''A'') = Some 0
   \<and> map_option result (resultAfter (handleShowdown scenarioB ''A'') ''A'') = Some DRAW
   \<and> map_option teamAChips (resultAfter (handleShowdown scenarioB ''A'') ''A'') = Some 4
   \<and> map_option teamBChips (resultAfter (handleShowdown scenarioB ''A'') ''A'') = Some 4
   \<and> map_option carryOver (myMatch scenarioB ''A'') = Some 2
   \<and> map_option currentRound (myMatch scenarioB ''A'') = Some TOTAL_ROUNDS
   \<and> (0 :: int) \<noteq> 4 + 4 + 2"
  by code_simp

section \<open>Call\<close>

lemma length_map_index [simp]: "length (map_index f xs) = length xs"
  by (simp add: map_index_def)

lemma nth_map_index: "j < length xs \<Longrightarrow> map_index f xs ! j = f j (xs ! j)"
  by (simp add: map_index_def nth_enumerate_eq)

lemma map_index_one:
  assumes "at_index xs i = Some x"
  shows "map_index (\<lambda>j s. if int j = i then f s else s) xs = xs[nat i := f x]"
proof (rule nth_equalityI)
  show "length (map_index (\<lambda>j s. if int j = i then f s else s) xs) = length (xs[nat i := f x])"
    by simp
next
  fix j assume "j < length (map_index (\<lambda>j s. if int j = i then f s else s) xs)"
  then have j: "j < length xs" by simp
  from assms have i: "0 \<le> i" "nat i < length xs" "xs ! nat i = x"
    by (simp_all add: at_index_Some)
  show "map_index (\<lambda>j s. if int j = i then f s else s) xs ! j = xs[nat i := f x] ! j"
  proof (cases "int j = i")
    case True
    then have "j = nat i" by simp
    with j i True show ?thesis by (simp add: nth_map_index)
  next
    case False
    then have "j \<noteq> nat i" using i(1) by auto
    with j False show ?thesis by (simp add: nth_map_index)
  qed
qed

lemma at_index_update:
  "at_index xs i = Some x \<Longrightarrow> at_index (xs[nat i := y]) i = Some y"
  by (simp add: at_index_def split: if_splits)

lemma opponentTeam_after:
  assumes m: "myMatch room k = Some m"
    and m': "myMatch room' k = Some m'" "teamAId m' = teamAId m" "teamBId m' = teamBId m"
    and opp: "opponentTeam room k = Some opp"
    and same: "team room' (id_t opp) = Some opp'"
  shows "opponentTeam room' k = Some opp'"
proof -
  have "team room (if teamAId m = k then teamBId m else teamAId m) = Some opp"
    using sides(2) [OF m] opp by simp
  then have "id_t opp = (if teamAId m = k then teamBId m else teamAId m)"
    by (rule team_id)
  then show ?thesis
    using sides(2) [OF m'(1)] m'(2,3) same by (simp split: if_splits)
qed

lemma handleCall_funded:
  assumes turn: "isMyTurn room k"
    and m: "myMatch room k = Some m"
    and t: "team room k = Some t"
    and opp: "opponentTeam room k = Some opp"
    and ms: "at_index (strategy t) (currentRound m - 1) = Some ms"
    and os: "at_index (strategy opp) (currentRound m - 1) = Some os"
    and funded: "winnings t \<ge> of_int (chips os - chips ms)"
  obtains room' where "handleCall room k loc = Some (room', loc)"
    and "myMatch room' k = Some (m\<lparr>roundStatus := SHOWDOWN, turnOwner := None,
           lastAction := Some \<lparr>teamId_l = k, action_l = CALL\<rparr>\<rparr>)"
    and "\<And>i. team room' i = map_option (\<lambda>x. if id_t x = k
           then t\<lparr>winnings := winnings t - of_int (chips os - chips ms),
                  strategy := (strategy t)[nat (currentRound m - 1) := ms\<lparr>chips := chips os\<rparr>]\<rparr>
           else x) (team room i)"
    and "status room' = status room"
proof -
  let ?upd = "\<lambda>mm. mm\<lparr>roundStatus := SHOWDOWN, turnOwner := None,
           lastAction := Some \<lparr>teamId_l = k, action_l = CALL\<rparr>\<rparr>"
  let ?f = "\<lambda>x. if id_t x = k
           then t\<lparr>winnings := winnings t - of_int (chips os - chips ms),
                  strategy := (strategy t)[nat (currentRound m - 1) := ms\<lparr>chips := chips os\<rparr>]\<rparr>
           else x"
  have strat: "map_index (\<lambda>i s. if int i = currentRound m - 1
        then s\<lparr>chips := chips s + (chips os - chips ms)\<rparr> else s) (strategy t)
      = (strategy t)[nat (currentRound m - 1) := ms\<lparr>chips := chips os\<rparr>]"
    using map_index_one [OF ms, of "\<lambda>s. s\<lparr>chips := chips s + (chips os - chips ms)\<rparr>"]
    by simp
  have eq: "handleCall room k loc =
      updateTeamsAndMatch room k (map ?f (teams room)) ?upd \<bind> (\<lambda>room'. Some (room', loc))"
    using turn m t opp ms os funded
    by (simp add: handleCall_def Let_def strat cong del: if_weak_cong)
  show thesis
  proof (rule updateTeamsAndMatch_read [OF m, of ?upd "map ?f (teams room)"])
    fix room'
    assume w: "updateTeamsAndMatch room k (map ?f (teams room)) ?upd = Some room'"
      "myMatch room' k = Some (?upd m)" "teams room' = map ?f (teams room)"
      "status room' = status room"
    have "team room' i = map_option ?f (team room i)" for i
      using w(3) team_id [OF t] by (intro team_map_same_id) auto
    then show thesis
      using eq w by (intro that [of room']) simp_all
  qed simp_all
qed

text \<open>
  C8. When the turn owner calls, with \<open>diff\<close> the opponent's chips of the current round
  minus its own: if its winnings cover \<open>diff\<close>, exactly \<open>diff\<close> leaves the winnings and
  joins its chips of the current round, which then equal the opponent's; no other team
  changes, and the match goes to SHOWDOWN. If they do not, the room is returned as it
  was and the steal dialog opens with \<open>neededChips = diff - winnings\<close> on a copy of the
  team's strategy.
\<close>

theorem call_by_turn_owner:
  assumes turn: "isMyTurn room k"
    and m: "myMatch room k = Some m"
    and t: "team room k = Some t"
    and opp: "opponentTeam room k = Some opp"
    and ne: "id_t opp \<noteq> k"
    and ms: "at_index (strategy t) (currentRound m - 1) = Some ms"
    and os: "at_index (strategy opp) (currentRound m - 1) = Some os"
  shows "(winnings t \<ge> of_int (chips os - chips ms) \<longrightarrow>
          (\<exists>room' t' ms'.
             handleCall room k loc = Some (room', loc)
             \<and> team room' k = Some t'
             \<and> winnings t' = winnings t - of_int (chips os - chips ms)
             \<and> strategy t' = (strategy t)[nat (currentRound m - 1) := ms']
             \<and> ms' = ms\<lparr>chips := chips ms + (chips os - chips ms)\<rparr>
             \<and> at_index (strategy t') (currentRound m - 1) = Some ms'
             \<and> chips ms' = chips os
             \<and> opponentTeam room' k = Some opp
             \<and> (\<forall>i. i \<noteq> k \<longrightarrow> team room' i = team room i)
             \<and> myMatch room' k = Some (m\<lparr>roundStatus := SHOWDOWN, turnOwner := None,
                   lastAction := Some \<lparr>teamId_l = k, action_l = CALL\<rparr>\<rparr>)))
       \<and> (winnings t < of_int (chips os - chips ms) \<longrightarrow>
            handleCall room k loc =
              Some (room, loc\<lparr>neededChips := of_int (chips os - chips ms) - winnings t,
                               tempStrategy := strategy t,
                               stealModalOpen := True\<rparr>))"
proof (intro conjI impI)
  assume funded: "winnings t \<ge> of_int (chips os - chips ms)"
  let ?ms' = "ms\<lparr>chips := chips ms + (chips os - chips ms)\<rparr>"
  let ?t' = "t\<lparr>winnings := winnings t - of_int (chips os - chips ms),
                strategy := (strategy t)[nat (currentRound m - 1) := ms\<lparr>chips := chips os\<rparr>]\<rparr>"
  let ?m' = "m\<lparr>roundStatus := SHOWDOWN, turnOwner := None,
                   lastAction := Some \<lparr>teamId_l = k, action_l = CALL\<rparr>\<rparr>"
  show "\<exists>room' t' ms'.
             handleCall room k loc = Some (room', loc)
             \<and> team room' k = Some t'
             \<and> winnings t' = winnings t - of_int (chips os - chips ms)
             \<and> strategy t' = (strategy t)[nat (currentRound m - 1) := ms']
             \<and> ms' = ms\<lparr>chips := chips ms + (chips os - chips ms)\<rparr>
             \<and> at_index (strategy t') (currentRound m - 1) = Some ms'
             \<and> chips ms' = chips os
             \<and> opponentTeam room' k = Some opp
             \<and> (\<forall>i. i \<noteq> k \<longrightarrow> team room' i = team room i)
             \<and> myMatch room' k = Some (m\<lparr>roundStatus := SHOWDOWN, turnOwner := None,
                   lastAction := Some \<lparr>teamId_l = k, action_l = CALL\<rparr>\<rparr>)"
  proof (rule handleCall_funded [OF turn m t opp ms os funded, of loc])
    fix room'
    assume w: "handleCall room k loc = Some (room', loc)" "myMatch room' k = Some ?m'"
      and rd: "\<And>i. team room' i = map_option (\<lambda>x. if id_t x = k then ?t' else x) (team room i)"
    have tk: "team room' k = Some ?t'"
      using rd [of k] t team_id [OF t] by simp
    have other: "team room' i = team room i" if "i \<noteq> k" for i
    proof (cases "team room i")
      case None
      then show ?thesis using rd [of i] by simp
    next
      case (Some x)
      then have "id_t x = i" by (rule team_id)
      with Some that show ?thesis using rd [of i] by simp
    qed
    have "team room' (id_t opp) = Some opp"
      using other [OF ne] opponentTeam_team [OF opp] by simp
    then have opp': "opponentTeam room' k = Some opp"
      using opponentTeam_after [OF m w(2) _ _ opp] by simp
    have same: "?ms' = ms\<lparr>chips := chips os\<rparr>" by simp
    have at: "at_index (strategy ?t') (currentRound m - 1) = Some ?ms'"
      using at_index_update [OF ms, of "ms\<lparr>chips := chips os\<rparr>"] by simp
    show ?thesis
      using w tk other opp' at
      by (intro exI [of _ room'] exI [of _ ?t'] exI [of _ ?ms']) simp
  qed
next
  assume "winnings t < of_int (chips os - chips ms)"
  then show "handleCall room k loc =
      Some (room, loc\<lparr>neededChips := of_int (chips os - chips ms) - winnings t,
                       tempStrategy := strategy t, stealModalOpen := True\<rparr>)"
    using turn m t opp ms os by (simp add: handleCall_def Let_def)
qed

theorem call_by_turn_owner_witness:
  "map_option winnings (teamAfter (map_option fst (handleCall scenarioA_decision ''A'' exampleLocal)) ''A'')
     = Some 7
   \<and> map_option roundStatus (matchAfter (map_option fst (handleCall scenarioA_decision ''A'' exampleLocal)) ''A'')
     = Some SHOWDOWN
   \<and> map_option snd (handleCall scenarioA_decision ''A'' exampleLocal) = Some exampleLocal
   \<and> map_option fst (handleCall scenarioC ''A'' exampleLocal) = Some scenarioC
   \<and> map_option (neededChips \<circ> snd) (handleCall scenarioC ''A'' exampleLocal) = Some 3
   \<and> map_option (stealModalOpen \<circ> snd) (handleCall scenarioC ''A'' exampleLocal) = Some True"
proof -
  let ?m = "exampleMatch 3 DECISION (Some ''A'') 0"
  let ?ta = "exampleTeam ''A'' 10 [0, 1, 5, 2, 3, 4, 6, 7, 8, 9] [3, 3, 2, 3, 3, 3, 3, 3, 3, 4]"
  let ?tb = "exampleTeam ''B'' 0 [9, 8, 3, 7, 6, 5, 4, 2, 1, 0] [1, 2, 5, 2, 6, 3, 3, 3, 3, 2]"
  let ?sa = "\<lparr>round_s = 3, card_s = 5, chips = 2\<rparr>"
  let ?sb = "\<lparr>round_s = 3, card_s = 3, chips = 5\<rparr>"
  have m: "myMatch scenarioA_decision ''A'' = Some ?m"
    by (simp add: scenarioA_decision_def exampleRoom_def myMatch_def myMatchIdx_def exampleMatch_def)
  have turn: "isMyTurn scenarioA_decision ''A''"
    using m by (simp add: isMyTurn_def exampleMatch_def)
  have t: "team scenarioA_decision ''A'' = Some ?ta"
    by (simp add: scenarioA_decision_def exampleRoom_def team_def exampleTeam_def)
  have opp: "opponentTeam scenarioA_decision ''A'' = Some ?tb"
    using sides(2) [OF m]
    by (simp add: scenarioA_decision_def exampleRoom_def team_def exampleTeam_def exampleMatch_def)
  have ne: "id_t ?tb \<noteq> ''A''" by (simp add: exampleTeam_def)
  have sa: "at_index (strategy ?ta) (currentRound ?m - 1) = Some ?sa"
    and sb: "at_index (strategy ?tb) (currentRound ?m - 1) = Some ?sb"
    by (simp_all add: exampleTeam_def exampleMatch_def at_index_def)
  have funded: "winnings ?ta \<ge> of_int (chips ?sb - chips ?sa)"
    by (simp add: exampleTeam_def)
  from call_by_turn_owner [OF turn m t opp ne sa sb, of exampleLocal] funded
  obtain room' t' where
    "handleCall scenarioA_decision ''A'' exampleLocal = Some (room', exampleLocal)"
    "team room' ''A'' = Some t'"
    "winnings t' = winnings ?ta - of_int (chips ?sb - chips ?sa)"
    "myMatch room' ''A'' = Some (?m\<lparr>roundStatus := SHOWDOWN, turnOwner := None,
        lastAction := Some \<lparr>teamId_l = ''A'', action_l = CALL\<rparr>\<rparr>)"
    by blast
  then have first: "map_option winnings (teamAfter (map_option fst (handleCall scenarioA_decision ''A'' exampleLocal)) ''A'')
       = Some 7
     \<and> map_option roundStatus (matchAfter (map_option fst (handleCall scenarioA_decision ''A'' exampleLocal)) ''A'')
       = Some SHOWDOWN
     \<and> map_option snd (handleCall scenarioA_decision ''A'' exampleLocal) = Some exampleLocal"
    by (simp add: teamAfter_def matchAfter_def exampleTeam_def)
  let ?n = "exampleMatch 5 DECISION (Some ''A'') 1"
  let ?ua = "exampleTeam ''A'' 0 [0, 1, 2, 3, 4, 5, 6, 7, 8, 9] [3, 3, 3, 3, 3, 3, 3, 3, 3, 3]"
  let ?ub = "exampleTeam ''B'' 0 [9, 8, 7, 6, 5, 4, 3, 2, 1, 0] [1, 2, 2, 2, 6, 3, 3, 3, 3, 5]"
  let ?ra = "\<lparr>round_s = 5, card_s = 4, chips = 3\<rparr>"
  let ?rb = "\<lparr>round_s = 5, card_s = 5, chips = 6\<rparr>"
  have n: "myMatch scenarioC ''A'' = Some ?n"
    by (simp add: scenarioC_def exampleRoom_def myMatch_def myMatchIdx_def exampleMatch_def)
  have turn2: "isMyTurn scenarioC ''A''"
    using n by (simp add: isMyTurn_def exampleMatch_def)
  have t2: "team scenarioC ''A'' = Some ?ua"
    by (simp add: scenarioC_def exampleRoom_def team_def exampleTeam_def)
  have opp2: "opponentTeam scenarioC ''A'' = Some ?ub"
    using sides(2) [OF n]
    by (simp add: scenarioC_def exampleRoom_def team_def exampleTeam_def exampleMatch_def)
  have ne2: "id_t ?ub \<noteq> ''A''" by (simp add: exampleTeam_def)
  have ra: "at_index (strategy ?ua) (currentRound ?n - 1) = Some ?ra"
    and rb: "at_index (strategy ?ub) (currentRound ?n - 1) = Some ?rb"
    by (simp_all add: exampleTeam_def exampleMatch_def at_index_def)
  have short: "winnings ?ua < of_int (chips ?rb - chips ?ra)"
    by (simp add: exampleTeam_def)
  from call_by_turn_owner [OF turn2 n t2 opp2 ne2 ra rb, of exampleLocal] short
  have "handleCall scenarioC ''A'' exampleLocal =
      Some (scenarioC, exampleLocal\<lparr>neededChips := of_int (chips ?rb - chips ?ra) - winnings ?ua,
                               tempStrategy := strategy ?ua, stealModalOpen := True\<rparr>)"
    by blast
  then have "map_option fst (handleCall scenarioC ''A'' exampleLocal) = Some scenarioC
     \<and> map_option (neededChips \<circ> snd) (handleCall scenarioC ''A'' exampleLocal) = Some 3
     \<and> map_option (stealModalOpen \<circ> snd) (handleCall scenarioC ''A'' exampleLocal) = Some True"
    by (simp add: exampleTeam_def)
  with first show ?thesis by simp
qed

section \<open>The automatic evaluation on entering READY\<close>

text \<open>
  C9. In a playing room with the match in READY, the evaluation compares the two teams'
  chips of the current round. Run by the team in the A slot it moves the match to
  SHOWDOWN when they are equal, and otherwise to DECISION with the team holding the
  fewer chips as turn owner, and leaves the teams as they were; run by the other team
  it changes nothing.
\<close>

theorem ready_evaluation:
  assumes playing: "status room = ROOM_PLAYING"
    and m: "myMatch room k = Some m"
    and ready: "roundStatus m = READY"
    and t: "team room k = Some t"
    and opp: "opponentTeam room k = Some opp"
    and ms: "at_index (strategy t) (currentRound m - 1) = Some ms"
    and os: "at_index (strategy opp) (currentRound m - 1) = Some os"
  shows "(isTeamA room k \<longrightarrow>
          (\<exists>room'. readyEvaluation room k = Some room' \<and> teams room' = teams room
             \<and> myMatch room' k = Some
                 (if chips ms = chips os then m\<lparr>roundStatus := SHOWDOWN\<rparr>
                  else m\<lparr>roundStatus := DECISION,
                         turnOwner := Some (if chips ms < chips os then k else id_t opp)\<rparr>)))
       \<and> (\<not> isTeamA room k \<longrightarrow> readyEvaluation room k = Some room)"
proof (intro conjI impI)
  assume a: "isTeamA room k"
  show "\<exists>room'. readyEvaluation room k = Some room' \<and> teams room' = teams room
             \<and> myMatch room' k = Some
                 (if chips ms = chips os then m\<lparr>roundStatus := SHOWDOWN\<rparr>
                  else m\<lparr>roundStatus := DECISION,
                         turnOwner := Some (if chips ms < chips os then k else id_t opp)\<rparr>)"
  proof (cases "chips ms = chips os")
    case True
    let ?upd = "\<lambda>mm. mm\<lparr>roundStatus := SHOWDOWN\<rparr>"
    have eq: "readyEvaluation room k = updateMatchState room k ?upd"
      using playing m ready t opp ms os a True by (simp add: readyEvaluation_def)
    show ?thesis
    proof (rule updateMatchState_read [OF m, of ?upd])
      fix room'
      assume "updateMatchState room k ?upd = Some room'" "myMatch room' k = Some (?upd m)"
        "teams room' = teams room"
      with eq True show ?thesis by (intro exI [of _ room']) simp
    qed simp_all
  next
    case False
    let ?upd = "\<lambda>mm. mm\<lparr>roundStatus := DECISION,
                         turnOwner := Some (if chips ms < chips os then k else id_t opp)\<rparr>"
    have eq: "readyEvaluation room k = updateMatchState room k ?upd"
      using playing m ready t opp ms os a False team_id [OF t]
      by (simp add: readyEvaluation_def Let_def)
    show ?thesis
    proof (rule updateMatchState_read [OF m, of ?upd])
      fix room'
      assume "updateMatchState room k ?upd = Some room'" "myMatch room' k = Some (?upd m)"
        "teams room' = teams room"
      with eq False show ?thesis by (intro exI [of _ room']) simp
    qed simp_all
  qed
next
  assume "\<not> isTeamA room k"
  then show "readyEvaluation room k = Some room"
    by (simp add: readyEvaluation_def)
qed

theorem ready_evaluation_witness:
  "map_option roundStatus (matchAfter (readyEvaluation scenarioA ''A'') ''A'') = Some DECISION
   \<and> map_option turnOwner (matchAfter (readyEvaluation scenarioA ''A'') ''A'') = Some (Some ''A'')
   \<and> readyEvaluation scenarioA ''B'' = Some scenarioA"
proof -
  let ?m = "exampleMatch 3 READY None 0"
  let ?ta = "exampleTeam ''A'' 10 [0, 1, 5, 2, 3, 4, 6, 7, 8, 9] [3, 3, 2, 3, 3, 3, 3, 3, 3, 4]"
  let ?tb = "exampleTeam ''B'' 0 [9, 8, 3, 7, 6, 5, 4, 2, 1, 0] [1, 2, 5, 2, 6, 3, 3, 3, 3, 2]"
  let ?sa = "\<lparr>round_s = 3, card_s = 5, chips = 2\<rparr>"
  let ?sb = "\<lparr>round_s = 3, card_s = 3, chips = 5\<rparr>"
  have playing: "status scenarioA = ROOM_PLAYING"
    by (simp add: scenarioA_def exampleRoom_def)
  have ready: "roundStatus ?m = READY" by (simp add: exampleMatch_def)
  have sa: "at_index (strategy ?ta) (currentRound ?m - 1) = Some ?sa"
    and sb: "at_index (strategy ?tb) (currentRound ?m - 1) = Some ?sb"
    by (simp_all add: exampleTeam_def exampleMatch_def at_index_def)
  have mA: "myMatch scenarioA ''A'' = Some ?m" and mB: "myMatch scenarioA ''B'' = Some ?m"
    by (simp_all add: scenarioA_def exampleRoom_def myMatch_def myMatchIdx_def exampleMatch_def)
  have tA: "team scenarioA ''A'' = Some ?ta" and tB: "team scenarioA ''B'' = Some ?tb"
    by (simp_all add: scenarioA_def exampleRoom_def team_def exampleTeam_def)
  have oA: "opponentTeam scenarioA ''A'' = Some ?tb"
    using sides(2) [OF mA] tB by (simp add: exampleMatch_def)
  have oB: "opponentTeam scenarioA ''B'' = Some ?ta"
    using sides(2) [OF mB] tA by (simp add: exampleMatch_def)
  have isA: "isTeamA scenarioA ''A''" and notA: "\<not> isTeamA scenarioA ''B''"
    using sides(1) [OF mA] sides(1) [OF mB] by (simp_all add: exampleMatch_def)
  from ready_evaluation [OF playing mA ready tA oA sa sb] isA
  obtain room' where "readyEvaluation scenarioA ''A'' = Some room'"
    "myMatch room' ''A'' = Some
       (if chips ?sa = chips ?sb then ?m\<lparr>roundStatus := SHOWDOWN\<rparr>
        else ?m\<lparr>roundStatus := DECISION,
                turnOwner := Some (if chips ?sa < chips ?sb then ''A'' else id_t ?tb)\<rparr>)"
    by blast
  then have "map_option roundStatus (matchAfter (readyEvaluation scenarioA ''A'') ''A'') = Some DECISION
     \<and> map_option turnOwner (matchAfter (readyEvaluation scenarioA ''A'') ''A'') = Some (Some ''A'')"
    by (simp add: matchAfter_def)
  moreover from ready_evaluation [OF playing mB ready tB oB sb sa] notA
  have "readyEvaluation scenarioA ''B'' = Some scenarioA" by blast
  ultimately show ?thesis by simp
qed

text \<open>In Scenario B the chips are equal and the match goes straight to SHOWDOWN.\<close>

lemma ready_evaluation_scenarioB:
  "map_option roundStatus (matchAfter (readyEvaluation scenarioB_ready ''A'') ''A'') = Some SHOWDOWN
   \<and> map_option turnOwner (matchAfter (readyEvaluation scenarioB_ready ''A'') ''A'') = Some None"
  by code_simp

text \<open>Outside READY, or in a room that is not playing, the evaluation writes nothing.\<close>

lemma readyEvaluation_idle:
  assumes "myMatch room k = Some m" "team room k = Some t" "opponentTeam room k = Some opp"
    and "roundStatus m \<noteq> READY \<or> status room \<noteq> ROOM_PLAYING"
  shows "readyEvaluation room k = Some room"
  using assms by (auto simp: readyEvaluation_def)

section \<open>Confirming a round's result\<close>







text \<open>
  The handler itself does not read \<open>roundStatus\<close> (\<^verbatim>\<open>handleShowdown\<close> does): run on its own
  in the DECISION of Scenario A it sets the caller's entry. It is the result dialog, the
  only place it is called from, that confines it to RESULT.
\<close>

lemma handleConfirmResult_no_status_check:
  "map_option roundStatus (myMatch scenarioA_decision ''B'') = Some DECISION
   \<and> confirmedAfter (Some scenarioA_decision) ''B'' ''B'' = None
   \<and> confirmedAfter (handleConfirmResult scenarioA_decision ''B'') ''B'' ''B'' = Some True"
  by code_simp

subsection \<open>The button of the result dialog\<close>


text \<open>
  C3. A confirmation while the match is in DECISION, or in any state other than RESULT
  (or with no match at all), changes no state: the result dialog is not rendered, the
  room stays as it is, and with it the \<open>resultConfirmed\<close> map and the current round.
\<close>

theorem confirm_outside_RESULT:
  assumes "map_option roundStatus (myMatch room k) \<noteq> Some RESULT"
  shows "resultConfirmClick room k = Some room
         \<and> matchAfter (resultConfirmClick room k) k = myMatch room k
         \<and> teamAfter (resultConfirmClick room k) k = team room k"
proof -
  from assms have "\<not> resultDialogButton room k"
    by (auto simp: resultDialogButton_def split: option.splits)
  then have "resultConfirmClick room k = Some room"
    by (simp add: resultConfirmClick_def)
  then show ?thesis
    by (simp add: matchAfter_def teamAfter_def)
qed

theorem confirm_outside_RESULT_witness:
  "map_option roundStatus (myMatch scenarioA_decision ''B'') = Some DECISION
   \<and> resultConfirmClick scenarioA_decision ''B'' = Some scenarioA_decision
   \<and> map_option currentRound (matchAfter (resultConfirmClick scenarioA_decision ''B'') ''B'') = Some 3
   \<and> confirmedAfter (resultConfirmClick scenarioA_decision ''B'') ''B'' ''B'' = None"
proof -
  have m: "myMatch scenarioA_decision ''B'' = Some (exampleMatch 3 DECISION (Some ''A'') 0)"
    by (simp add: scenarioA_decision_def exampleRoom_def myMatch_def myMatchIdx_def exampleMatch_def)
  then have st: "map_option roundStatus (myMatch scenarioA_decision ''B'') \<noteq> Some RESULT"
    by (simp add: exampleMatch_def)
  from confirm_outside_RESULT [OF st]
  have "resultConfirmClick scenarioA_decision ''B'' = Some scenarioA_decision" by blast
  with m show ?thesis
    by (simp add: confirmedAfter_def matchAfter_def exampleMatch_def)
qed



text \<open>
  The room of this example is the one the fold of Scenario C and team \<open>B\<close>'s confirmation
  lead to. On that room both teams may press as often as they like: the match is in
  round 6 and READY after team \<open>A\<close>'s first confirmation and stays there.
\<close>

lemma scenarioC_folded_reached:
  "thenDo (handleFold scenarioC ''A'') resultConfirmClick ''B'' = Some scenarioC_folded"
  by (simp add: thenDo_def handleFold_def scenarioC_def scenarioC_folded_def exampleRoom_def
      exampleTeam_def exampleMatch_def isMyTurn_def myMatch_def myMatchIdx_def team_def
      opponentTeam_def opponentId_def isTeamA_def at_index_def updateTeamsAndMatch_def
      resultConfirmClick_def resultDialogButton_def truthy_def handleConfirmResult_def
      updateMatchState_def Let_def)

lemma confirm_clicks_scenarioC:
  "map_option currentRound (matchAfter
      (thenDo (thenDo (thenDo (thenDo (thenDo (handleFold scenarioC ''A'') resultConfirmClick ''B'')
         resultConfirmClick ''B'') resultConfirmClick ''A'') resultConfirmClick ''A'')
         resultConfirmClick ''B'') ''A'') = Some 6
   \<and> map_option roundStatus (matchAfter
      (thenDo (thenDo (thenDo (thenDo (thenDo (handleFold scenarioC ''A'') resultConfirmClick ''B'')
         resultConfirmClick ''B'') resultConfirmClick ''A'') resultConfirmClick ''A'')
         resultConfirmClick ''B'') ''A'') = Some READY"
  by code_simp

section \<open>Submitting a strategy\<close>

lemma cardsInv_place:
  assumes "cardsInv cs" and c: "c \<in> set CARDS" and fresh: "\<forall>i < length cs. cs ! i \<noteq> c"
  shows "cardsInv (cs[k := c])"
  unfolding cardsInv_def
proof (intro conjI allI impI)
  fix i assume "i < length (cs[k := c])"
  then show "cs[k := c] ! i = - 1 \<or> cs[k := c] ! i \<in> set CARDS"
    using assms(1) c by (cases "i = k") (simp_all add: cardsInv_def)
next
  fix i j
  assume i: "i < length (cs[k := c])" and j: "j < length (cs[k := c])"
    and eq: "cs[k := c] ! i = cs[k := c] ! j \<and> cs[k := c] ! i \<noteq> - 1"
  show "i = j"
  proof (cases "i = k")
    case True
    with i j eq fresh show ?thesis by (cases "j = k") auto
  next
    case False
    show ?thesis
    proof (cases "j = k")
      case True
      with False i j eq fresh show ?thesis by auto
    next
      case jk: False
      from i j have "i < length cs" "j < length cs" by simp_all
      moreover from eq False jk have "cs ! i = cs ! j \<and> cs ! i \<noteq> - 1" by simp
      ultimately show ?thesis using assms(1) unfolding cardsInv_def by blast
    qed
  qed
qed

lemma cardsInv_clear:
  assumes "cardsInv cs"
  shows "cardsInv (cs[k := - 1])"
  unfolding cardsInv_def
proof (intro conjI allI impI)
  fix i assume "i < length (cs[k := - 1])"
  then show "cs[k := - 1] ! i = - 1 \<or> cs[k := - 1] ! i \<in> set CARDS"
    using assms by (cases "i = k") (simp_all add: cardsInv_def)
next
  fix i j
  assume i: "i < length (cs[k := - 1])" and j: "j < length (cs[k := - 1])"
    and eq: "cs[k := - 1] ! i = cs[k := - 1] ! j \<and> cs[k := - 1] ! i \<noteq> - 1"
  from i eq have ik: "i \<noteq> k" by auto
  from i j eq ik have jk: "j \<noteq> k" by auto
  from i j have "i < length cs" "j < length cs" by simp_all
  moreover from eq ik jk have "cs ! i = cs ! j \<and> cs ! i \<noteq> - 1" by simp
  ultimately show "i = j" using assms unfolding cardsInv_def by blast
qed

lemma cardsInv_swap:
  assumes inv: "cardsInv cs" and a: "a < length cs" and b: "b < length cs" and ab: "a \<noteq> b"
  shows "cardsInv (cs[b := cs ! a, a := cs ! b])"
proof -
  let ?p = "\<lambda>i. if i = a then b else if i = b then a else i"
  let ?cs = "cs[b := cs ! a, a := cs ! b]"
  have nth: "?cs ! i = cs ! ?p i" if "i < length cs" for i
    using that a b ab by (simp add: nth_list_update)
  have lt: "?p i < length cs" if "i < length cs" for i
    using that a b by simp
  have inj: "?p i = ?p j \<Longrightarrow> i = j" for i j
    by (simp split: if_splits)
  show ?thesis
    unfolding cardsInv_def
  proof (intro conjI allI impI)
    fix i assume "i < length ?cs"
    then have i: "i < length cs" by simp
    from inv lt [OF i] have "cs ! ?p i = - 1 \<or> cs ! ?p i \<in> set CARDS"
      unfolding cardsInv_def by blast
    then show "?cs ! i = - 1 \<or> ?cs ! i \<in> set CARDS"
      unfolding nth [OF i] .
  next
    fix i j
    assume "i < length ?cs" "j < length ?cs"
    then have i: "i < length cs" and j: "j < length cs" by simp_all
    assume "?cs ! i = ?cs ! j \<and> ?cs ! i \<noteq> - 1"
    then have "cs ! ?p i = cs ! ?p j \<and> cs ! ?p i \<noteq> - 1"
      unfolding nth [OF i] nth [OF j] .
    with inv lt [OF i] lt [OF j] have "?p i = ?p j"
      unfolding cardsInv_def by blast
    then show "i = j" by (rule inj)
  qed
qed

lemma not_used_nth:
  assumes "c \<notin> set (usedCards s)" "c \<noteq> - 1"
  shows "\<forall>i < length (map card_s s). map card_s s ! i \<noteq> c"
  using assms by (auto simp: usedCards_def)

lemma editorInv_initial: "editorInv (initialStrategy None)"
  by (simp add: editorInv_def cardsInv_def initialStrategy_def TOTAL_ROUNDS_def list_all_iff)

lemma list_all_update: "list_all P xs \<Longrightarrow> P y \<Longrightarrow> list_all P (xs[k := y])"
  using set_update_subset_insert [of xs k y] by (auto simp: list_all_iff)

lemma editorInv_chips:
  assumes "editorInv s" "k < length s" "n \<ge> 1"
  shows "editorInv (s[k := (s ! k)\<lparr>chips := n\<rparr>])"
proof -
  have "(map card_s s)[k := map card_s s ! k] = map card_s s"
    by (rule list_update_id)
  then have "(map card_s s)[k := card_s (s ! k)] = map card_s s"
    using assms(2) by simp
  then show ?thesis
    using assms by (simp add: editorInv_def list_all_update map_update)
qed

lemma editorInv_place:
  assumes "editorInv s" "k < length s" "c \<in> set CARDS" "c \<notin> set (usedCards s)"
  shows "editorInv (s[k := (s ! k)\<lparr>card_s := c\<rparr>])"
proof -
  from assms(3) have "c \<noteq> - 1" by (auto simp: CARDS_def)
  with assms(4) have "\<forall>i < length (map card_s s). map card_s s ! i \<noteq> c"
    by (rule not_used_nth)
  with assms(1,3) have "cardsInv ((map card_s s)[k := c])"
    by (intro cardsInv_place) (simp_all add: editorInv_def)
  moreover have "list_all (\<lambda>s. chips s \<ge> 1) (s[k := (s ! k)\<lparr>card_s := c\<rparr>])"
    using assms(1,2) by (intro list_all_update) (simp_all add: editorInv_def list_all_length)
  ultimately show ?thesis
    using assms(1) by (simp add: editorInv_def map_update)
qed

lemma editorInv_clear:
  assumes "editorInv s" "k < length s"
  shows "editorInv (s[k := (s ! k)\<lparr>card_s := - 1\<rparr>])"
proof -
  have "cardsInv ((map card_s s)[k := - 1])"
    using assms(1) by (intro cardsInv_clear) (simp add: editorInv_def)
  moreover have "list_all (\<lambda>s. chips s \<ge> 1) (s[k := (s ! k)\<lparr>card_s := - 1\<rparr>])"
    using assms by (intro list_all_update) (simp_all add: editorInv_def list_all_length)
  ultimately show ?thesis
    using assms(1) by (simp add: editorInv_def map_update)
qed

lemma editorInv_swap:
  assumes "editorInv s" "a < length s" "b < length s" "a \<noteq> b"
  shows "editorInv (s[b := (s ! b)\<lparr>card_s := card_s (s ! a)\<rparr>,
                      a := (s ! a)\<lparr>card_s := card_s (s ! b)\<rparr>])"
proof -
  have "cardsInv ((map card_s s)[b := map card_s s ! a, a := map card_s s ! b])"
    using assms by (intro cardsInv_swap) (simp_all add: editorInv_def)
  then have "cardsInv ((map card_s s)[b := card_s (s ! a), a := card_s (s ! b)])"
    using assms(2,3) by simp
  moreover have "list_all (\<lambda>s. chips s \<ge> 1)
      (s[b := (s ! b)\<lparr>card_s := card_s (s ! a)\<rparr>, a := (s ! a)\<lparr>card_s := card_s (s ! b)\<rparr>])"
    using assms(1,2,3) by (intro list_all_update) (simp_all add: editorInv_def list_all_length)
  ultimately show ?thesis
    using assms(1) by (simp add: editorInv_def map_update)
qed

lemma handleSetChips_inv:
  assumes inv: "editorInv (strategy_l loc)"
    and step: "handleSetChips room adm loc k d = Some loc'"
  shows "editorInv (strategy_l loc')"
proof (cases "at_index (strategy_l loc) (int k)")
  case None
  with step inv show ?thesis
    by (auto simp: handleSetChips_def split: if_splits)
next
  case (Some cur)
  then have k: "k < length (strategy_l loc)" "strategy_l loc ! k = cur"
    by (simp_all add: at_index_Some)
  from step Some have "loc' = loc \<or>
      (chips cur + d \<ge> 1 \<and> loc' = loc\<lparr>strategy_l := (strategy_l loc)[k := cur\<lparr>chips := chips cur + d\<rparr>]\<rparr>)"
    by (auto simp: handleSetChips_def Let_def split: if_splits)
  then show ?thesis
    using inv editorInv_chips [OF inv k(1), of "chips cur + d"] k(2) by auto
qed

lemma handleDrop_deck_inv:
  assumes inv: "editorInv (strategy_l loc)"
    and c: "c \<in> set CARDS" "c \<notin> set (usedCards (strategy_l loc))"
    and step: "handleDrop room adm loc (Some \<lparr>data = c, source = None\<rparr>) z = Some loc'"
  shows "editorInv (strategy_l loc')"
proof (cases z)
  case None
  with step inv show ?thesis by (simp add: handleDrop_def split: if_splits)
next
  case (Some j)
  show ?thesis
  proof (cases "j < length (strategy_l loc)")
    case True
    with step Some have "loc' = loc \<or>
        loc' = loc\<lparr>strategy_l := (strategy_l loc)[j := (strategy_l loc ! j)\<lparr>card_s := c\<rparr>]\<rparr>"
      by (auto simp: handleDrop_def at_index_def split: if_splits)
    then show ?thesis
      using inv editorInv_place [OF inv True c] by auto
  next
    case False
    with step Some inv show ?thesis
      by (simp add: handleDrop_def at_index_def split: if_splits)
  qed
qed

lemma handleDrop_round_inv:
  assumes inv: "editorInv (strategy_l loc)"
    and i: "i < length (strategy_l loc)"
    and step: "handleDrop room adm loc
        (Some \<lparr>data = card_s (strategy_l loc ! i), source = Some i\<rparr>) z = Some loc'"
  shows "editorInv (strategy_l loc')"
proof (cases z)
  case None
  with step i have "loc' = loc \<or>
      loc' = loc\<lparr>strategy_l := (strategy_l loc)[i := (strategy_l loc ! i)\<lparr>card_s := - 1\<rparr>]\<rparr>"
    by (auto simp: handleDrop_def at_index_def split: if_splits)
  then show ?thesis
    using inv editorInv_clear [OF inv i] by auto
next
  case (Some j)
  show ?thesis
  proof (cases "j < length (strategy_l loc) \<and> i \<noteq> j")
    case True
    with step Some i have "loc' = loc \<or>
        loc' = loc\<lparr>strategy_l := (strategy_l loc)
          [j := (strategy_l loc ! j)\<lparr>card_s := card_s (strategy_l loc ! i)\<rparr>,
           i := (strategy_l loc ! i)\<lparr>card_s := card_s (strategy_l loc ! j)\<rparr>]\<rparr>"
      by (auto simp: handleDrop_def at_index_def split: if_splits)
    then show ?thesis
      using inv editorInv_swap [OF inv i, of j] True by auto
  next
    case False
    with step Some inv show ?thesis
      by (auto simp: handleDrop_def at_index_def split: if_splits)
  qed
qed

lemma handleCardDoubleClick_inv:
  assumes inv: "editorInv (strategy_l loc)"
    and step: "handleCardDoubleClick room adm loc k = Some loc'"
  shows "editorInv (strategy_l loc')"
proof (cases "k < length (strategy_l loc)")
  case True
  with step have "loc' = loc \<or>
      loc' = loc\<lparr>strategy_l := (strategy_l loc)[k := (strategy_l loc ! k)\<lparr>card_s := - 1\<rparr>]\<rparr>"
    by (auto simp: handleCardDoubleClick_def at_index_def split: if_splits)
  then show ?thesis
    using inv editorInv_clear [OF inv True] by auto
next
  case False
  with step inv show ?thesis
    by (simp add: handleCardDoubleClick_def at_index_def split: if_splits)
qed

lemma editorGesture_inv:
  assumes inv: "editorInv (strategy_l loc)"
    and step: "editorGesture room t adm loc g = Some loc'"
  shows "editorInv (strategy_l loc')"
proof (cases g)
  case (ChipMinus k)
  with step inv show ?thesis
    by (auto split: if_splits dest: handleSetChips_inv [OF inv])
next
  case (ChipPlus k)
  with step inv show ?thesis
    by (auto split: if_splits dest: handleSetChips_inv [OF inv])
next
  case (DragFromDeck c z)
  show ?thesis
  proof (cases "status room \<noteq> ROOM_PREPARING \<or> readOnly t adm \<or> c \<notin> set CARDS
         \<or> c \<in> set (usedCards (strategy_l loc))")
    case True
    with step DragFromDeck inv show ?thesis by auto
  next
    case False
    then have c: "c \<in> set CARDS" "c \<notin> set (usedCards (strategy_l loc))"
      and "c \<noteq> - 1" and "status room = ROOM_PREPARING"
      by (auto simp: CARDS_def)
    then have "handleDragStart room adm c None = Some \<lparr>data = c, source = None\<rparr>"
      by (simp add: handleDragStart_def)
    with step DragFromDeck False
    have "handleDrop room adm loc (Some \<lparr>data = c, source = None\<rparr>) (dropZone loc z) = Some loc'"
      by simp
    then show ?thesis by (rule handleDrop_deck_inv [OF inv c])
  qed
next
  case (DragFromRound k z)
  show ?thesis
  proof (cases "status room \<noteq> ROOM_PREPARING \<or> readOnly t adm \<or> k \<ge> length (strategy_l loc)
         \<or> card_s (strategy_l loc ! k) = - 1")
    case True
    with step DragFromRound inv show ?thesis by (auto split: if_splits)
  next
    case False
    then have k: "k < length (strategy_l loc)" by simp
    from False have "handleDragStart room adm (card_s (strategy_l loc ! k)) (Some k)
        = Some \<lparr>data = card_s (strategy_l loc ! k), source = Some k\<rparr>"
      by (simp add: handleDragStart_def)
    with step DragFromRound False
    have "handleDrop room adm loc
        (Some \<lparr>data = card_s (strategy_l loc ! k), source = Some k\<rparr>) (dropZone loc z) = Some loc'"
      by simp
    then show ?thesis by (rule handleDrop_round_inv [OF inv k])
  qed
next
  case (DoubleClick k)
  with step inv show ?thesis
    by (auto split: if_splits dest: handleCardDoubleClick_inv [OF inv])
qed

lemma editor_inv:
  "editorInv (strategy_l loc) \<Longrightarrow> editor room t adm loc gs = Some loc'
     \<Longrightarrow> editorInv (strategy_l loc')"
proof (induction gs arbitrary: loc)
  case Nil
  then show ?case by simp
next
  case (Cons g gs)
  from Cons.prems(2) obtain loc1 where
    step: "editorGesture room t adm loc g = Some loc1" and rest: "editor room t adm loc1 gs = Some loc'"
    by (auto simp: bind_eq_Some_conv)
  from editorGesture_inv [OF Cons.prems(1) step] rest show ?case
    by (rule Cons.IH)
qed

lemma usedChips_sum: "usedChips s = sum_list (map chips s)"
proof -
  have "foldl (\<lambda>acc s. acc + chips s) a s = a + sum_list (map chips s)" for a
    by (induction s arbitrary: a) simp_all
  then show ?thesis by (simp add: usedChips_def)
qed

lemma filter_full:
  "length (filter P xs) = length xs \<Longrightarrow> \<forall>x \<in> set xs. P x"
  using sum_length_filter_compl [of P xs] by (auto simp: filter_empty_conv)

lemma editorInv_valid:
  assumes inv: "editorInv s"
    and cards: "length (usedCards s) = 10"
    and chs: "usedChips s = TOTAL_CHIPS"
  shows "validStrategy_spec s"
proof -
  let ?cs = "map card_s s"
  from inv have len: "length ?cs = 10" and cinv: "cardsInv ?cs"
    and ones: "list_all (\<lambda>s. chips s \<ge> 1) s"
    by (simp_all add: editorInv_def)
  from cards len have "length (filter (\<lambda>c. c \<noteq> - 1) ?cs) = length ?cs"
    by (simp add: usedCards_def)
  then have all: "\<forall>c \<in> set ?cs. c \<noteq> - 1" by (rule filter_full)
  have dist: "distinct ?cs"
    unfolding distinct_conv_nth
  proof (intro allI impI)
    fix i j assume i: "i < length ?cs" and j: "j < length ?cs" and ne: "i \<noteq> j"
    from all i have "?cs ! i \<noteq> - 1" by (meson nth_mem)
    with cinv i j ne show "?cs ! i \<noteq> ?cs ! j"
      unfolding cardsInv_def by blast
  qed
  have sub: "set ?cs \<subseteq> set CARDS"
  proof
    fix c assume c: "c \<in> set ?cs"
    then obtain i where i: "i < length ?cs" "?cs ! i = c" by (auto simp: in_set_conv_nth)
    with cinv have "c = - 1 \<or> c \<in> set CARDS" unfolding cardsInv_def by blast
    with all c show "c \<in> set CARDS" by blast
  qed
  have "card (set ?cs) = 10" using distinct_card [OF dist] len by simp
  moreover have "card (set CARDS) = 10" by (simp add: CARDS_def)
  ultimately have "set ?cs = set CARDS"
    using sub by (intro card_subset_eq) simp_all
  then have "sort ?cs = CARDS"
    using dist by (intro sorted_distinct_set_unique) (simp_all add: CARDS_def)
  with chs ones show ?thesis
    by (simp add: validStrategy_spec_def usedChips_sum CARDS_def)
qed

lemma initialStrategy_fresh:
  "strategy t = [] \<Longrightarrow> initialStrategy (Some t) = initialStrategy None"
  by (simp add: initialStrategy_def)

lemma valid_spec_used:
  assumes "validStrategy_spec s"
  shows "length (usedCards s) = 10" and "usedChips s = TOTAL_CHIPS"
proof -
  from assms have srt: "sort (map card_s s) = [0, 1, 2, 3, 4, 5, 6, 7, 8, 9]"
    and sum: "sum_list (map chips s) = TOTAL_CHIPS"
    by (simp_all add: validStrategy_spec_def)
  have "set (map card_s s) = set (sort (map card_s s))" by simp
  also have "\<dots> = set [0, 1, 2, 3, 4, 5, 6, 7, 8, 9 :: int]" by (simp only: srt)
  finally have "- 1 \<notin> set (map card_s s)" by simp
  then have "\<forall>c \<in> set (map card_s s). c \<noteq> - 1" by blast
  then have "filter (\<lambda>c. c \<noteq> - 1) (map card_s s) = map card_s s"
    by (rule filter_True)
  moreover have "length (map card_s s) = length (sort (map card_s s))" by simp
  ultimately show "length (usedCards s) = 10"
    by (simp add: usedCards_def srt)
  show "usedChips s = TOTAL_CHIPS" using sum by (simp add: usedChips_sum)
qed

text \<open>
  C2, as amended. A submission by a team (not the administrator) is refused, with
  nothing written, when the number of rounds that hold a card is not 10 or the chips do
  not add up to 30. It is accepted, opening the confirmation dialog, when ten rounds
  hold a card, the chips add up to 30 and every round has a chip; so every valid
  strategy is accepted. Confirming sets \<open>isReady\<close> and stores the strategy. The
  submission does not compare the cards with each other: that they are 0 to 9, each
  once, and that every round has a chip, is what the editor maintains, so a strategy
  built in the editor from the initial one is accepted only if it is valid.
\<close>

theorem submit_strategy_checks:
  "(length (usedCards (strategy_l loc)) \<noteq> 10 \<or> usedChips (strategy_l loc) \<noteq> TOTAL_CHIPS
      \<longrightarrow> isl (handleSubmitStrategy room k False loc))
   \<and> (length (usedCards (strategy_l loc)) = 10 \<and> usedChips (strategy_l loc) = TOTAL_CHIPS
        \<and> list_all (\<lambda>s. chips s \<ge> 1) (strategy_l loc)
      \<longrightarrow> handleSubmitStrategy room k False loc = Inr (room, loc\<lparr>submitConfirmOpen := True\<rparr>))
   \<and> (validStrategy_spec (strategy_l loc)
      \<longrightarrow> handleSubmitStrategy room k False loc = Inr (room, loc\<lparr>submitConfirmOpen := True\<rparr>))
   \<and> (team room k = Some t
      \<longrightarrow> team (fst (confirmSubmit room k loc)) k
            = Some (t\<lparr>isReady := True, strategy := strategy_l loc\<rparr>)
          \<and> \<not> submitConfirmOpen (snd (confirmSubmit room k loc)))
   \<and> (strategy t = []
        \<and> editor room t False (loc0\<lparr>strategy_l := initialStrategy (Some t)\<rparr>) gs = Some loc
        \<and> \<not> isl (handleSubmitStrategy room k False loc)
      \<longrightarrow> validStrategy_spec (strategy_l loc))"
proof (intro conjI impI)
  assume "length (usedCards (strategy_l loc)) \<noteq> 10 \<or> usedChips (strategy_l loc) \<noteq> TOTAL_CHIPS"
  then show "isl (handleSubmitStrategy room k False loc)"
    by (auto simp: handleSubmitStrategy_def remainingChips_def)
next
  assume "length (usedCards (strategy_l loc)) = 10 \<and> usedChips (strategy_l loc) = TOTAL_CHIPS
        \<and> list_all (\<lambda>s. chips s \<ge> 1) (strategy_l loc)"
  then show "handleSubmitStrategy room k False loc = Inr (room, loc\<lparr>submitConfirmOpen := True\<rparr>)"
    by (simp add: handleSubmitStrategy_def remainingChips_def)
next
  assume "validStrategy_spec (strategy_l loc)"
  then show "handleSubmitStrategy room k False loc = Inr (room, loc\<lparr>submitConfirmOpen := True\<rparr>)"
    using valid_spec_used [of "strategy_l loc"]
    by (simp add: handleSubmitStrategy_def remainingChips_def)
next
  assume t: "team room k = Some t"
  have "team (fst (confirmSubmit room k loc)) k =
      map_option (\<lambda>x. if id_t x = k then x\<lparr>isReady := True, strategy := strategy_l loc\<rparr> else x)
        (team room k)"
    by (intro team_map_same_id) (simp_all add: confirmSubmit_def)
  with t show "team (fst (confirmSubmit room k loc)) k
        = Some (t\<lparr>isReady := True, strategy := strategy_l loc\<rparr>)"
    using team_id [OF t] by simp
next
  show "\<not> submitConfirmOpen (snd (confirmSubmit room k loc))"
    by (simp add: confirmSubmit_def)
next
  assume a: "strategy t = []
        \<and> editor room t False (loc0\<lparr>strategy_l := initialStrategy (Some t)\<rparr>) gs = Some loc
        \<and> \<not> isl (handleSubmitStrategy room k False loc)"
  then have "editorInv (strategy_l (loc0\<lparr>strategy_l := initialStrategy (Some t)\<rparr>))"
    using editorInv_initial by (simp add: initialStrategy_fresh)
  with a have inv: "editorInv (strategy_l loc)"
    by (blast intro: editor_inv)
  from a have "length (usedCards (strategy_l loc)) = 10" "usedChips (strategy_l loc) = TOTAL_CHIPS"
    by (auto simp: handleSubmitStrategy_def remainingChips_def split: if_splits)
  with inv show "validStrategy_spec (strategy_l loc)"
    by (rule editorInv_valid)
qed

theorem submit_strategy_checks_witness:
  "editor preparingRoom (freshTeam ''A'') False
       (exampleLocal\<lparr>strategy_l := initialStrategy (Some (freshTeam ''A''))\<rparr>) exampleGestures
     = Some (exampleLocal\<lparr>strategy_l := builtStrategy\<rparr>)
   \<and> validStrategy_spec builtStrategy
   \<and> handleSubmitStrategy preparingRoom ''A'' False (exampleLocal\<lparr>strategy_l := builtStrategy\<rparr>)
     = Inr (preparingRoom, exampleLocal\<lparr>strategy_l := builtStrategy, submitConfirmOpen := True\<rparr>)
   \<and> map_option isReady (team (fst (confirmSubmit preparingRoom ''A''
        (exampleLocal\<lparr>strategy_l := builtStrategy\<rparr>))) ''A'') = Some True
   \<and> isl (handleSubmitStrategy preparingRoom ''A'' False
        (exampleLocal\<lparr>strategy_l := initialStrategy None\<rparr>))"
proof -
  let ?loc = "exampleLocal\<lparr>strategy_l := builtStrategy\<rparr>"
  let ?blank = "exampleLocal\<lparr>strategy_l := initialStrategy None\<rparr>"
  have ed: "editor preparingRoom (freshTeam ''A'') False
       (exampleLocal\<lparr>strategy_l := initialStrategy (Some (freshTeam ''A''))\<rparr>) exampleGestures
     = Some ?loc"
    by code_simp
  have fresh: "strategy (freshTeam ''A'') = []" by (simp add: freshTeam_def)
  have t: "team preparingRoom ''A'' = Some (freshTeam ''A'')"
    by (simp add: team_def preparingRoom_def freshTeam_def)
  have cards: "length (usedCards (strategy_l ?loc)) = 10" by code_simp
  have sum: "usedChips (strategy_l ?loc) = TOTAL_CHIPS" by code_simp
  have ones: "list_all (\<lambda>s. chips s \<ge> 1) (strategy_l ?loc)" by code_simp
  note inst = submit_strategy_checks [of ?loc preparingRoom "''A''" "freshTeam ''A''" exampleLocal
      exampleGestures]
  from inst cards sum ones
  have acc: "handleSubmitStrategy preparingRoom ''A'' False ?loc
      = Inr (preparingRoom, ?loc\<lparr>submitConfirmOpen := True\<rparr>)"
    by blast
  then have "\<not> isl (handleSubmitStrategy preparingRoom ''A'' False ?loc)" by simp
  with inst fresh ed have valid: "validStrategy_spec (strategy_l ?loc)" by blast
  from inst t have ready: "team (fst (confirmSubmit preparingRoom ''A'' ?loc)) ''A''
      = Some (freshTeam ''A''\<lparr>isReady := True, strategy := strategy_l ?loc\<rparr>)"
    by blast
  have "length (usedCards (strategy_l ?blank)) \<noteq> 10" by code_simp
  with submit_strategy_checks [of ?blank preparingRoom "''A''" "freshTeam ''A''" exampleLocal
      exampleGestures]
  have rej: "isl (handleSubmitStrategy preparingRoom ''A'' False ?blank)" by blast
  from ed valid acc ready rej show ?thesis by simp
qed

text \<open>
  The claim as stated has the submission reject every strategy whose cards are not 0 to
  9, each once. A strategy with card 0 in two rounds and card 9 in none, ten cards
  and 30 chips in all, is accepted and stored.
\<close>

theorem submit_duplicate_cards_accepted:
  "handleSubmitStrategy preparingRoom ''A'' False (exampleLocal\<lparr>strategy_l := duplicateCards\<rparr>)
     = Inr (preparingRoom, exampleLocal\<lparr>strategy_l := duplicateCards, submitConfirmOpen := True\<rparr>)
   \<and> map_option isReady (team (fst (confirmSubmit preparingRoom ''A''
        (exampleLocal\<lparr>strategy_l := duplicateCards, submitConfirmOpen := True\<rparr>))) ''A'') = Some True
   \<and> map_option strategy (team (fst (confirmSubmit preparingRoom ''A''
        (exampleLocal\<lparr>strategy_l := duplicateCards, submitConfirmOpen := True\<rparr>))) ''A'')
     = Some duplicateCards
   \<and> map card_s duplicateCards = [0, 0, 1, 2, 3, 4, 5, 6, 7, 8]
   \<and> \<not> validStrategy_spec duplicateCards"
proof -
  have "length (usedCards duplicateCards) = 10" "remainingChips duplicateCards = 0"
    by code_simp+
  then have "handleSubmitStrategy preparingRoom ''A'' False (exampleLocal\<lparr>strategy_l := duplicateCards\<rparr>)
     = Inr (preparingRoom, exampleLocal\<lparr>strategy_l := duplicateCards, submitConfirmOpen := True\<rparr>)"
    by (simp add: handleSubmitStrategy_def)
  moreover have "map_option isReady (team (fst (confirmSubmit preparingRoom ''A''
        (exampleLocal\<lparr>strategy_l := duplicateCards, submitConfirmOpen := True\<rparr>))) ''A'') = Some True"
    by (simp add: confirmSubmit_def team_def preparingRoom_def freshTeam_def)
  moreover have "map_option strategy (team (fst (confirmSubmit preparingRoom ''A''
        (exampleLocal\<lparr>strategy_l := duplicateCards, submitConfirmOpen := True\<rparr>))) ''A'')
     = Some duplicateCards"
    by (simp add: confirmSubmit_def team_def preparingRoom_def freshTeam_def exampleLocal_def)
  moreover have "map card_s duplicateCards = [0, 0, 1, 2, 3, 4, 5, 6, 7, 8]"
    by code_simp
  moreover have "\<not> validStrategy_spec duplicateCards"
    by code_simp
  ultimately show ?thesis by simp
qed

section \<open>Steal\<close>

lemma stolenAmount_same: "stolenAmount orig orig cr = 0"
proof -
  have "(\<lambda>i. if cr \<le> int i \<and> i < length orig then chips (orig ! i) - chips (orig ! i) else 0)
      = (\<lambda>i. 0)"
    by (rule ext) simp
  then show ?thesis by (simp add: stolenAmount_def)
qed

lemma stealInv_opened:
  assumes "0 \<le> needed"
  shows "stealInv orig cr needed
           (loc\<lparr>neededChips := needed, tempStrategy := orig, stealModalOpen := True\<rparr>)"
  using assms by (simp add: stealInv_def stolenAmount_same)

lemma stealMinusClick_inv:
  assumes inv: "stealInv (strategy t) (currentRound m) needed loc"
    and t: "team room k = Some t" and m: "myMatch room k = Some m"
  shows "\<exists>loc'. stealMinusClick room k loc idx = Some loc'
           \<and> stealInv (strategy t) (currentRound m) needed loc'
           \<and> strategy_l loc' = strategy_l loc \<and> submitConfirmOpen loc' = submitConfirmOpen loc"
proof (cases "idx \<ge> length (tempStrategy loc) \<or> int idx < currentRound m
    \<or> chips (tempStrategy loc ! idx) \<le> 1")
  case True
  then have "stealMinusClick room k loc idx = Some loc"
    using m by (auto simp: stealMinusClick_def)
  with inv show ?thesis by simp
next
  case False
  let ?tmp = "tempStrategy loc"
  let ?cur = "?tmp ! idx"
  let ?next = "?tmp[idx := ?cur\<lparr>chips := chips ?cur - 1\<rparr>]"
  from False have idx: "idx < length ?tmp" "currentRound m \<le> int idx" "1 < chips ?cur"
    by simp_all
  from inv have open_: "stealModalOpen loc" and nd: "neededChips loc = needed"
    and len: "length ?tmp = length (strategy t)"
    by (simp_all add: stealInv_def)
  have click: "stealMinusClick room k loc idx = adjustTempChips room k loc idx (- 1)"
    using False open_ m by (simp add: stealMinusClick_def)
  have adj: "adjustTempChips room k loc idx (- 1) =
      (if of_int (stolenAmount (strategy t) ?next (currentRound m)) > needed then Some loc
       else Some (loc\<lparr>tempStrategy := ?next\<rparr>))"
    using idx t m nd by (simp add: adjustTempChips_def at_index_def Let_def)
  show ?thesis
  proof (cases "of_int (stolenAmount (strategy t) ?next (currentRound m)) > needed")
    case True
    with click adj inv show ?thesis by simp
  next
    case over: False
    have entries: "\<forall>i < length (strategy t).
           ?next ! i = strategy t ! i
           \<or> (currentRound m \<le> int i \<and> 1 \<le> chips (?next ! i)
               \<and> chips (?next ! i) < chips (strategy t ! i)
               \<and> ?next ! i = (strategy t ! i)\<lparr>chips := chips (?next ! i)\<rparr>)"
    proof (intro allI impI)
      fix i assume i: "i < length (strategy t)"
      from inv i have old: "?tmp ! i = strategy t ! i
           \<or> (currentRound m \<le> int i \<and> 1 \<le> chips (?tmp ! i)
               \<and> chips (?tmp ! i) < chips (strategy t ! i)
               \<and> ?tmp ! i = (strategy t ! i)\<lparr>chips := chips (?tmp ! i)\<rparr>)"
        unfolding stealInv_def by blast
      show "?next ! i = strategy t ! i
           \<or> (currentRound m \<le> int i \<and> 1 \<le> chips (?next ! i)
               \<and> chips (?next ! i) < chips (strategy t ! i)
               \<and> ?next ! i = (strategy t ! i)\<lparr>chips := chips (?next ! i)\<rparr>)"
      proof (cases "i = idx")
        case False
        with old show ?thesis by simp
      next
        case True
        have le: "chips ?cur \<le> chips (strategy t ! idx)"
          using old True by auto
        have shape: "?cur\<lparr>chips := chips ?cur - 1\<rparr> = (strategy t ! idx)\<lparr>chips := chips ?cur - 1\<rparr>"
        proof -
          from old True have "?cur = strategy t ! idx
              \<or> ?cur = (strategy t ! idx)\<lparr>chips := chips ?cur\<rparr>" by auto
          then show ?thesis
          proof
            assume "?cur = strategy t ! idx"
            then show ?thesis by simp
          next
            assume e: "?cur = (strategy t ! idx)\<lparr>chips := chips ?cur\<rparr>"
            have "?cur\<lparr>chips := chips ?cur - 1\<rparr>
                = (strategy t ! idx)\<lparr>chips := chips ?cur\<rparr>\<lparr>chips := chips ?cur - 1\<rparr>"
              by (subst e) simp
            then show ?thesis by simp
          qed
        qed
        have "?next ! i = ?cur\<lparr>chips := chips ?cur - 1\<rparr>"
          using True idx(1) by simp
        with True idx le shape show ?thesis by simp
      qed
    qed
    have "stealInv (strategy t) (currentRound m) needed (loc\<lparr>tempStrategy := ?next\<rparr>)"
      using open_ nd len entries over by (simp add: stealInv_def)
    with click adj over show ?thesis by simp
  qed
qed

lemma stealClicks_inv:
  assumes t: "team room k = Some t" and m: "myMatch room k = Some m"
  shows "stealInv (strategy t) (currentRound m) needed loc \<Longrightarrow>
         \<exists>loc'. stealClicks room k loc idxs = Some loc'
           \<and> stealInv (strategy t) (currentRound m) needed loc'
           \<and> strategy_l loc' = strategy_l loc \<and> submitConfirmOpen loc' = submitConfirmOpen loc"
proof (induction idxs arbitrary: loc)
  case Nil
  then show ?case by simp
next
  case (Cons idx idxs)
  from stealMinusClick_inv [OF Cons.prems t m, of idx]
  obtain loc1 where s: "stealMinusClick room k loc idx = Some loc1"
    and i: "stealInv (strategy t) (currentRound m) needed loc1"
    and f: "strategy_l loc1 = strategy_l loc" "submitConfirmOpen loc1 = submitConfirmOpen loc"
    by blast
  from Cons.IH [OF i] obtain loc' where "stealClicks room k loc1 idxs = Some loc'"
    "stealInv (strategy t) (currentRound m) needed loc'"
    "strategy_l loc' = strategy_l loc1" "submitConfirmOpen loc' = submitConfirmOpen loc1"
    by blast
  with s f show ?case by simp
qed

lemma sum_list_nth: "sum_list (map f xs) = (\<Sum>i\<leftarrow>[0..<length xs]. f (xs ! i))"
proof -
  have "map f xs = map f (map ((!) xs) [0..<length xs])" by (simp only: map_nth)
  then show ?thesis by (simp add: comp_def)
qed

lemma stealInv_sum:
  assumes inv: "stealInv orig cr needed loc"
  shows "sum_list (map chips (tempStrategy loc))
           = sum_list (map chips orig) - stolenAmount orig (tempStrategy loc) cr"
proof -
  let ?tmp = "tempStrategy loc"
  from inv have len: "length ?tmp = length orig" by (simp add: stealInv_def)
  have pt: "(if cr \<le> int i \<and> i < length ?tmp then chips (orig ! i) - chips (?tmp ! i) else 0)
      = chips (orig ! i) - chips (?tmp ! i)" if "i \<in> set [0..<length orig]" for i
  proof -
    from that have i: "i < length orig" by simp
    with inv have "?tmp ! i = orig ! i \<or> cr \<le> int i" unfolding stealInv_def by blast
    with i len show ?thesis by auto
  qed
  have "stolenAmount orig ?tmp cr = (\<Sum>i\<leftarrow>[0..<length orig]. chips (orig ! i) - chips (?tmp ! i))"
    unfolding stolenAmount_def using pt by (intro arg_cong [where f = sum_list] map_cong) simp_all
  also have "\<dots> = (\<Sum>i\<leftarrow>[0..<length orig]. chips (orig ! i))
      - (\<Sum>i\<leftarrow>[0..<length orig]. chips (?tmp ! i))"
    by (rule sum_list_subtractf)
  also have "\<dots> = sum_list (map chips orig) - sum_list (map chips ?tmp)"
    using sum_list_nth [of chips orig] sum_list_nth [of chips ?tmp] len by simp
  finally show ?thesis by simp
qed

lemma those_Some:
  "(\<And>x. x \<in> set xs \<Longrightarrow> x \<noteq> None) \<Longrightarrow> \<exists>ys. those xs = Some ys"
proof (induction xs)
  case Nil
  then show ?case by simp
next
  case (Cons x xs)
  then obtain y ys where "x = Some y" "those xs = Some ys" by force
  then show ?case by simp
qed

lemma stolenTotal_Some:
  assumes "length tmp = length orig"
  shows "\<exists>n. stolenTotal orig tmp i = Some n"
proof -
  have "\<exists>ys. those (map
       (\<lambda>j. if int j > i
            then map_option (\<lambda>ts. max 0 (chips (orig ! j) - chips ts)) (at_index tmp (int j))
            else Some 0)
       [0..<length orig]) = Some ys"
    using assms by (intro those_Some) (auto simp: at_index_def)
  then show ?thesis by (auto simp: stolenTotal_def)
qed

lemma confirmSteal_accept:
  assumes inv: "stealInv (strategy t) (currentRound m) needed loc"
    and m: "myMatch room k = Some m"
    and t: "team room k = Some t"
    and opp: "opponentTeam room k = Some opp"
    and ms: "at_index (strategy t) (currentRound m - 1) = Some ms"
    and os: "at_index (strategy opp) (currentRound m - 1) = Some os"
  obtains room' where
    "confirmSteal room k loc = Some (room', loc\<lparr>stealModalOpen := False,
        tempStrategy := (tempStrategy loc)[nat (currentRound m - 1) := ms\<lparr>chips := chips os\<rparr>]\<rparr>)"
    and "myMatch room' k = Some (m\<lparr>roundStatus := SHOWDOWN, turnOwner := None\<rparr>)"
    and "\<And>i. team room' i = map_option (\<lambda>x. if id_t x = k
           then t\<lparr>winnings := 0,
                  strategy := (tempStrategy loc)[nat (currentRound m - 1) := ms\<lparr>chips := chips os\<rparr>]\<rparr>
           else x) (team room i)"
proof -
  let ?upd = "\<lambda>mm. mm\<lparr>roundStatus := SHOWDOWN, turnOwner := None\<rparr>"
  let ?strat = "(tempStrategy loc)[nat (currentRound m - 1) := ms\<lparr>chips := chips os\<rparr>]"
  let ?f = "\<lambda>x. if id_t x = k then t\<lparr>winnings := 0, strategy := ?strat\<rparr> else x"
  from inv have len: "length (tempStrategy loc) = length (strategy t)"
    by (simp add: stealInv_def)
  from ms have i: "0 \<le> currentRound m - 1" "nat (currentRound m - 1) < length (strategy t)"
    "strategy t ! nat (currentRound m - 1) = ms"
    by (simp_all add: at_index_Some)
  from inv i(2) have "tempStrategy loc ! nat (currentRound m - 1) = strategy t ! nat (currentRound m - 1)
      \<or> currentRound m \<le> int (nat (currentRound m - 1))"
    unfolding stealInv_def by blast
  with i have "tempStrategy loc ! nat (currentRound m - 1) = ms" by auto
  then have tmp: "at_index (tempStrategy loc) (currentRound m - 1) = Some ms"
    using i len by (simp add: at_index_def)
  obtain n where st: "stolenTotal (strategy t) (tempStrategy loc) (currentRound m - 1) = Some n"
    using stolenTotal_Some [OF len] by blast
  have eq: "confirmSteal room k loc =
      updateTeamsAndMatch room k (map ?f (teams room)) ?upd
        \<bind> (\<lambda>room'. Some (room', loc\<lparr>stealModalOpen := False, tempStrategy := ?strat\<rparr>))"
    using m t opp ms os tmp st
    by (simp add: confirmSteal_def Let_def cong del: if_weak_cong)
  show thesis
  proof (rule updateTeamsAndMatch_read [OF m, of ?upd "map ?f (teams room)"])
    fix room'
    assume w: "updateTeamsAndMatch room k (map ?f (teams room)) ?upd = Some room'"
      "myMatch room' k = Some (?upd m)" "teams room' = map ?f (teams room)"
    have "team room' i = map_option ?f (team room i)" for i
      using w(3) team_id [OF t] by (intro team_map_same_id) auto
    then show thesis
      using eq w by (intro that [of room']) simp_all
  qed simp_all
qed

lemma sum_chips_update:
  "k < length xs \<Longrightarrow>
     sum_list (map chips (xs[k := x])) = sum_list (map chips xs) - chips (xs ! k) + chips x"
proof (induction xs arbitrary: k)
  case Nil
  then show ?case by simp
next
  case (Cons y ys)
  then show ?case by (cases k) simp_all
qed

lemma calculateStolenAmount_inv:
  assumes inv: "stealInv (strategy t) (currentRound m) needed loc"
    and m: "myMatch room k = Some m" and t: "team room k = Some t"
    and ms: "at_index (strategy t) (currentRound m - 1) = Some ms"
  shows "calculateStolenAmount room k loc
           = stolenAmount (strategy t) (tempStrategy loc) (currentRound m)"
proof -
  from ms have "strategy t \<noteq> []" by (auto simp: at_index_def)
  with inv have "tempStrategy loc \<noteq> []" by (auto simp: stealInv_def)
  with m t show ?thesis by (simp add: calculateStolenAmount_def)
qed

lemma steal_run:
  assumes turn: "isMyTurn room k"
    and m: "myMatch room k = Some m"
    and t: "team room k = Some t"
    and opp: "opponentTeam room k = Some opp"
    and ms: "at_index (strategy t) (currentRound m - 1) = Some ms"
    and os: "at_index (strategy opp) (currentRound m - 1) = Some os"
    and short: "winnings t < of_int (chips os - chips ms)"
  obtains loc1 loc2 where "handleCall room k loc0 = Some (room, loc1)"
    and "loc1 = loc0\<lparr>neededChips := of_int (chips os - chips ms) - winnings t,
                     tempStrategy := strategy t, stealModalOpen := True\<rparr>"
    and "stealClicks room k loc1 idxs = Some loc2"
    and "stealInv (strategy t) (currentRound m) (of_int (chips os - chips ms) - winnings t) loc2"
proof -
  let ?needed = "of_int (chips os - chips ms) - winnings t"
  let ?loc1 = "loc0\<lparr>neededChips := ?needed, tempStrategy := strategy t, stealModalOpen := True\<rparr>"
  have call: "handleCall room k loc0 = Some (room, ?loc1)"
    using turn m t opp ms os short by (simp add: handleCall_def Let_def)
  from short have "0 \<le> ?needed" by simp
  then have "stealInv (strategy t) (currentRound m) ?needed ?loc1"
    by (rule stealInv_opened)
  from stealClicks_inv [OF t m this, of idxs] obtain loc2 where
    "stealClicks room k ?loc1 idxs = Some loc2" "stealInv (strategy t) (currentRound m) ?needed loc2"
    by blast
  with call show thesis by (intro that [of ?loc1 loc2]) simp_all
qed

subsection \<open>The dialog from opening to acceptance\<close>

text \<open>
  The dialog on a room that stays as it was when the call was made. When the turn owner
  calls with winnings short of \<open>diff\<close>, the dialog opens on a copy of
  the team's strategy with \<open>needed = diff - winnings\<close>, and the room is not written. After
  any sequence of presses on the minus buttons every entry of the copy is either the
  team's own or belongs to a round after the current one, holds at least 1 chip and fewer
  than the team's entry, and differs from it only in the chips. The confirm button acts
  only when the amount taken has reached \<open>needed\<close>; otherwise nothing changes. When it
  acts, the team's winnings become 0, its chips of the current round are raised by
  \<open>diff\<close> to the opponent's, the other teams are untouched and the match goes to SHOWDOWN
  with no turn owner. Cancelling closes the dialog and leaves the room, which the call did
  not write either, as it was.
\<close>

theorem steal_protocol:
  assumes turn: "isMyTurn room k"
    and m: "myMatch room k = Some m"
    and t: "team room k = Some t"
    and opp: "opponentTeam room k = Some opp"
    and ne: "id_t opp \<noteq> k"
    and ms: "at_index (strategy t) (currentRound m - 1) = Some ms"
    and os: "at_index (strategy opp) (currentRound m - 1) = Some os"
    and short: "winnings t < of_int (chips os - chips ms)"
  shows "\<exists>loc1 loc2.
           loc1 = loc0\<lparr>neededChips := of_int (chips os - chips ms) - winnings t,
                         tempStrategy := strategy t, stealModalOpen := True\<rparr>
           \<and> handleCall room k loc0 = Some (room, loc1)
           \<and> stealClicks room k loc1 idxs = Some loc2
           \<and> neededChips loc2 = neededChips loc1
           \<and> length (tempStrategy loc2) = length (strategy t)
           \<and> (\<forall>i < length (strategy t).
                 tempStrategy loc2 ! i = strategy t ! i
                 \<or> (currentRound m \<le> int i \<and> 1 \<le> chips (tempStrategy loc2 ! i)
                     \<and> chips (tempStrategy loc2 ! i) < chips (strategy t ! i)
                     \<and> tempStrategy loc2 ! i
                         = (strategy t ! i)\<lparr>chips := chips (tempStrategy loc2 ! i)\<rparr>))
           \<and> canConfirmSteal room k loc2
               = (of_int (stolenAmount (strategy t) (tempStrategy loc2) (currentRound m))
                    \<ge> neededChips loc2)
           \<and> (\<not> canConfirmSteal room k loc2 \<longrightarrow> stealConfirmClick room k loc2 = Some (room, loc2))
           \<and> (canConfirmSteal room k loc2 \<longrightarrow>
                (\<exists>room' t'.
                   stealConfirmClick room k loc2
                     = Some (room', loc2\<lparr>stealModalOpen := False, tempStrategy := strategy t'\<rparr>)
                   \<and> team room' k = Some t' \<and> winnings t' = 0
                   \<and> strategy t' = (tempStrategy loc2)
                        [nat (currentRound m - 1) := ms\<lparr>chips := chips ms + (chips os - chips ms)\<rparr>]
                   \<and> at_index (strategy t') (currentRound m - 1) = Some (ms\<lparr>chips := chips os\<rparr>)
                   \<and> opponentTeam room' k = Some opp
                   \<and> (\<forall>i. i \<noteq> k \<longrightarrow> team room' i = team room i)
                   \<and> myMatch room' k = Some (m\<lparr>roundStatus := SHOWDOWN, turnOwner := None\<rparr>)))
           \<and> stealCancelClick room loc2 = (room, loc2\<lparr>stealModalOpen := False\<rparr>)"
proof (rule steal_run [OF turn m t opp ms os short, of loc0 idxs])
  fix loc1 loc2
  let ?needed = "of_int (chips os - chips ms) - winnings t"
  assume call: "handleCall room k loc0 = Some (room, loc1)"
    and loc1: "loc1 = loc0\<lparr>neededChips := ?needed, tempStrategy := strategy t, stealModalOpen := True\<rparr>"
    and clicks: "stealClicks room k loc1 idxs = Some loc2"
    and inv: "stealInv (strategy t) (currentRound m) ?needed loc2"
  from inv have open2: "stealModalOpen loc2" and nd: "neededChips loc2 = ?needed"
    and len: "length (tempStrategy loc2) = length (strategy t)"
    and entries: "\<forall>i < length (strategy t).
                 tempStrategy loc2 ! i = strategy t ! i
                 \<or> (currentRound m \<le> int i \<and> 1 \<le> chips (tempStrategy loc2 ! i)
                     \<and> chips (tempStrategy loc2 ! i) < chips (strategy t ! i)
                     \<and> tempStrategy loc2 ! i
                         = (strategy t ! i)\<lparr>chips := chips (tempStrategy loc2 ! i)\<rparr>)"
    by (simp_all add: stealInv_def)
  have can: "canConfirmSteal room k loc2
      = (of_int (stolenAmount (strategy t) (tempStrategy loc2) (currentRound m)) \<ge> neededChips loc2)"
    by (simp add: canConfirmSteal_def calculateStolenAmount_inv [OF inv m t ms])
  have refuse: "\<not> canConfirmSteal room k loc2 \<longrightarrow> stealConfirmClick room k loc2 = Some (room, loc2)"
    by (simp add: stealConfirmClick_def)
  have accept: "canConfirmSteal room k loc2 \<longrightarrow>
                (\<exists>room' t'.
                   stealConfirmClick room k loc2
                     = Some (room', loc2\<lparr>stealModalOpen := False, tempStrategy := strategy t'\<rparr>)
                   \<and> team room' k = Some t' \<and> winnings t' = 0
                   \<and> strategy t' = (tempStrategy loc2)
                        [nat (currentRound m - 1) := ms\<lparr>chips := chips ms + (chips os - chips ms)\<rparr>]
                   \<and> at_index (strategy t') (currentRound m - 1) = Some (ms\<lparr>chips := chips os\<rparr>)
                   \<and> opponentTeam room' k = Some opp
                   \<and> (\<forall>i. i \<noteq> k \<longrightarrow> team room' i = team room i)
                   \<and> myMatch room' k = Some (m\<lparr>roundStatus := SHOWDOWN, turnOwner := None\<rparr>))"
  proof
    assume ok: "canConfirmSteal room k loc2"
    let ?strat = "(tempStrategy loc2)[nat (currentRound m - 1) := ms\<lparr>chips := chips os\<rparr>]"
    let ?t' = "t\<lparr>winnings := 0, strategy := ?strat\<rparr>"
    let ?m' = "m\<lparr>roundStatus := SHOWDOWN, turnOwner := None\<rparr>"
    show "\<exists>room' t'.
                   stealConfirmClick room k loc2
                     = Some (room', loc2\<lparr>stealModalOpen := False, tempStrategy := strategy t'\<rparr>)
                   \<and> team room' k = Some t' \<and> winnings t' = 0
                   \<and> strategy t' = (tempStrategy loc2)
                        [nat (currentRound m - 1) := ms\<lparr>chips := chips ms + (chips os - chips ms)\<rparr>]
                   \<and> at_index (strategy t') (currentRound m - 1) = Some (ms\<lparr>chips := chips os\<rparr>)
                   \<and> opponentTeam room' k = Some opp
                   \<and> (\<forall>i. i \<noteq> k \<longrightarrow> team room' i = team room i)
                   \<and> myMatch room' k = Some (m\<lparr>roundStatus := SHOWDOWN, turnOwner := None\<rparr>)"
    proof (rule confirmSteal_accept [OF inv m t opp ms os])
      fix room'
      assume w: "confirmSteal room k loc2
          = Some (room', loc2\<lparr>stealModalOpen := False, tempStrategy := ?strat\<rparr>)"
        "myMatch room' k = Some ?m'"
        and rd: "\<And>i. team room' i = map_option (\<lambda>x. if id_t x = k then ?t' else x) (team room i)"
      have click: "stealConfirmClick room k loc2
          = Some (room', loc2\<lparr>stealModalOpen := False, tempStrategy := ?strat\<rparr>)"
        using ok open2 w(1) by (simp add: stealConfirmClick_def)
      have tk: "team room' k = Some ?t'"
        using rd [of k] t team_id [OF t] by simp
      have other: "team room' i = team room i" if "i \<noteq> k" for i
      proof (cases "team room i")
        case None
        then show ?thesis using rd [of i] by simp
      next
        case (Some x)
        then have "id_t x = i" by (rule team_id)
        with Some that show ?thesis using rd [of i] by simp
      qed
      have "team room' (id_t opp) = Some opp"
        using other [OF ne] opponentTeam_team [OF opp] by simp
      then have opp': "opponentTeam room' k = Some opp"
        using opponentTeam_after [OF m w(2) _ _ opp] by simp
      from ms have i: "0 \<le> currentRound m - 1" "nat (currentRound m - 1) < length (strategy t)"
        by (simp_all add: at_index_Some)
      have at: "at_index ?strat (currentRound m - 1) = Some (ms\<lparr>chips := chips os\<rparr>)"
        using i len by (simp add: at_index_def)
      show ?thesis
        using click tk other opp' at w(2)
        by (intro exI [of _ room'] exI [of _ ?t']) simp
    qed
  qed
  show ?thesis
    using call loc1 clicks nd len entries can refuse accept
    by (intro exI [of _ loc1] exI [of _ loc2]) (simp add: stealCancelClick_def)
qed

theorem steal_protocol_witness:
  "map_option snd (handleCall scenarioC ''A'' exampleLocal)
     = Some (exampleLocal\<lparr>neededChips := 3,
          tempStrategy := exampleStrategy 1 [0, 1, 2, 3, 4, 5, 6, 7, 8, 9] [3, 3, 3, 3, 3, 3, 3, 3, 3, 3],
          stealModalOpen := True\<rparr>)
   \<and> stealClicks scenarioC ''A''
        (exampleLocal\<lparr>neededChips := 3,
          tempStrategy := exampleStrategy 1 [0, 1, 2, 3, 4, 5, 6, 7, 8, 9] [3, 3, 3, 3, 3, 3, 3, 3, 3, 3],
          stealModalOpen := True\<rparr>) [2, 5, 5, 5, 6, 7]
     = Some (exampleLocal\<lparr>neededChips := 3, tempStrategy := stolenExample, stealModalOpen := True\<rparr>)
   \<and> canConfirmSteal scenarioC ''A''
        (exampleLocal\<lparr>neededChips := 3, tempStrategy := stolenExample, stealModalOpen := True\<rparr>)
   \<and> map_option winnings (teamAfter (map_option fst (stealConfirmClick scenarioC ''A''
        (exampleLocal\<lparr>neededChips := 3, tempStrategy := stolenExample, stealModalOpen := True\<rparr>))) ''A'')
     = Some 0
   \<and> map_option (map chips \<circ> strategy) (teamAfter (map_option fst (stealConfirmClick scenarioC ''A''
        (exampleLocal\<lparr>neededChips := 3, tempStrategy := stolenExample, stealModalOpen := True\<rparr>))) ''A'')
     = Some [3, 3, 3, 3, 6, 1, 2, 3, 3, 3]
   \<and> map_option roundStatus (matchAfter (map_option fst (stealConfirmClick scenarioC ''A''
        (exampleLocal\<lparr>neededChips := 3, tempStrategy := stolenExample, stealModalOpen := True\<rparr>))) ''A'')
     = Some SHOWDOWN"
proof -
  let ?m = "exampleMatch 5 DECISION (Some ''A'') 1"
  let ?ta = "exampleTeam ''A'' 0 [0, 1, 2, 3, 4, 5, 6, 7, 8, 9] [3, 3, 3, 3, 3, 3, 3, 3, 3, 3]"
  let ?tb = "exampleTeam ''B'' 0 [9, 8, 7, 6, 5, 4, 3, 2, 1, 0] [1, 2, 2, 2, 6, 3, 3, 3, 3, 5]"
  let ?sa = "\<lparr>round_s = 5, card_s = 4, chips = 3\<rparr>"
  let ?sb = "\<lparr>round_s = 5, card_s = 5, chips = 6\<rparr>"
  let ?L1 = "exampleLocal\<lparr>neededChips := 3,
          tempStrategy := exampleStrategy 1 [0, 1, 2, 3, 4, 5, 6, 7, 8, 9] [3, 3, 3, 3, 3, 3, 3, 3, 3, 3],
          stealModalOpen := True\<rparr>"
  let ?L2 = "exampleLocal\<lparr>neededChips := 3, tempStrategy := stolenExample, stealModalOpen := True\<rparr>"
  have m: "myMatch scenarioC ''A'' = Some ?m"
    by (simp add: scenarioC_def exampleRoom_def myMatch_def myMatchIdx_def exampleMatch_def)
  have turn: "isMyTurn scenarioC ''A''"
    using m by (simp add: isMyTurn_def exampleMatch_def)
  have t: "team scenarioC ''A'' = Some ?ta"
    by (simp add: scenarioC_def exampleRoom_def team_def exampleTeam_def)
  have opp: "opponentTeam scenarioC ''A'' = Some ?tb"
    using sides(2) [OF m]
    by (simp add: scenarioC_def exampleRoom_def team_def exampleTeam_def exampleMatch_def)
  have ne: "id_t ?tb \<noteq> ''A''" by (simp add: exampleTeam_def)
  have sa: "at_index (strategy ?ta) (currentRound ?m - 1) = Some ?sa"
    and sb: "at_index (strategy ?tb) (currentRound ?m - 1) = Some ?sb"
    by (simp_all add: exampleTeam_def exampleMatch_def at_index_def)
  have short: "winnings ?ta < of_int (chips ?sb - chips ?sa)"
    by (simp add: exampleTeam_def)
  have L1: "exampleLocal\<lparr>neededChips := of_int (chips ?sb - chips ?sa) - winnings ?ta,
      tempStrategy := strategy ?ta, stealModalOpen := True\<rparr> = ?L1"
    by (simp add: exampleTeam_def)
  have run: "stealClicks scenarioC ''A'' ?L1 [2, 5, 5, 5, 6, 7] = Some ?L2"
    by code_simp
  have can: "canConfirmSteal scenarioC ''A'' ?L2"
    by code_simp
  from steal_protocol [OF turn m t opp ne sa sb short, of exampleLocal "[2, 5, 5, 5, 6, 7]"]
  obtain loc2 where call: "handleCall scenarioC ''A'' exampleLocal = Some (scenarioC, ?L1)"
    and clicks: "stealClicks scenarioC ''A'' ?L1 [2, 5, 5, 5, 6, 7] = Some loc2"
    and acc: "canConfirmSteal scenarioC ''A'' loc2 \<longrightarrow>
                (\<exists>room' t'.
                   stealConfirmClick scenarioC ''A'' loc2
                     = Some (room', loc2\<lparr>stealModalOpen := False, tempStrategy := strategy t'\<rparr>)
                   \<and> team room' ''A'' = Some t' \<and> winnings t' = 0
                   \<and> strategy t' = (tempStrategy loc2)
                        [nat (currentRound ?m - 1) := ?sa\<lparr>chips := chips ?sa + (chips ?sb - chips ?sa)\<rparr>]
                   \<and> at_index (strategy t') (currentRound ?m - 1) = Some (?sa\<lparr>chips := chips ?sb\<rparr>)
                   \<and> opponentTeam room' ''A'' = Some ?tb
                   \<and> (\<forall>i. i \<noteq> ''A'' \<longrightarrow> team room' i = team scenarioC i)
                   \<and> myMatch room' ''A'' = Some (?m\<lparr>roundStatus := SHOWDOWN, turnOwner := None\<rparr>))"
    unfolding L1 by blast
  from clicks run have loc2: "loc2 = ?L2" by simp
  from acc can obtain room' t' where
    "stealConfirmClick scenarioC ''A'' ?L2
       = Some (room', ?L2\<lparr>stealModalOpen := False, tempStrategy := strategy t'\<rparr>)"
    "team room' ''A'' = Some t'" "winnings t' = 0"
    "strategy t' = (tempStrategy ?L2)
        [nat (currentRound ?m - 1) := ?sa\<lparr>chips := chips ?sa + (chips ?sb - chips ?sa)\<rparr>]"
    "myMatch room' ''A'' = Some (?m\<lparr>roundStatus := SHOWDOWN, turnOwner := None\<rparr>)"
    unfolding loc2 by blast
  then have after: "map_option winnings (teamAfter (map_option fst (stealConfirmClick scenarioC ''A'' ?L2)) ''A'')
       = Some 0
     \<and> map_option (map chips \<circ> strategy) (teamAfter (map_option fst (stealConfirmClick scenarioC ''A'' ?L2)) ''A'')
       = Some [3, 3, 3, 3, 6, 1, 2, 3, 3, 3]
     \<and> map_option roundStatus (matchAfter (map_option fst (stealConfirmClick scenarioC ''A'' ?L2)) ''A'')
       = Some SHOWDOWN"
    by (simp add: teamAfter_def matchAfter_def stolenExample_def exampleMatch_def)
  from call run can after show ?thesis by simp
qed

text \<open>
  The total resources of the acting team, its winnings plus the chips of all its
  rounds, are kept by a funded call, and by an accepted steal on a room that stays as it
  was when the call was made. A funded call takes \<open>diff\<close>
  from the winnings and adds it to the chips of the current round. In the dialog the
  chips of the copy are the team's less the amount taken, which never exceeds
  \<open>needed = diff - winnings\<close>; the confirm button acts only when it is at least \<open>needed\<close>,
  so at acceptance it is exactly \<open>needed\<close>, and the chips written are the team's plus the
  winnings that were drained.
\<close>

theorem call_and_steal_conserve:
  assumes turn: "isMyTurn room k"
    and m: "myMatch room k = Some m"
    and t: "team room k = Some t"
    and opp: "opponentTeam room k = Some opp"
    and ms: "at_index (strategy t) (currentRound m - 1) = Some ms"
    and os: "at_index (strategy opp) (currentRound m - 1) = Some os"
  shows "(of_int (chips os - chips ms) \<le> winnings t \<longrightarrow>
           (\<exists>room' t'.
              handleCall room k loc0 = Some (room', loc0)
              \<and> team room' k = Some t'
              \<and> winnings t' = winnings t - of_int (chips os - chips ms)
              \<and> sum_list (map chips (strategy t'))
                  = sum_list (map chips (strategy t)) + (chips os - chips ms)
              \<and> totalResources t' = totalResources t))
       \<and> (winnings t < of_int (chips os - chips ms) \<longrightarrow>
           (\<exists>loc1 loc2.
              loc1 = loc0\<lparr>neededChips := of_int (chips os - chips ms) - winnings t,
                            tempStrategy := strategy t, stealModalOpen := True\<rparr>
              \<and> handleCall room k loc0 = Some (room, loc1)
              \<and> stealClicks room k loc1 idxs = Some loc2
              \<and> sum_list (map chips (tempStrategy loc2))
                  = sum_list (map chips (strategy t)) - calculateStolenAmount room k loc2
              \<and> of_int (calculateStolenAmount room k loc2)
                  \<le> of_int (chips os - chips ms) - winnings t
              \<and> (canConfirmSteal room k loc2 \<longrightarrow>
                   of_int (calculateStolenAmount room k loc2)
                     = of_int (chips os - chips ms) - winnings t
                   \<and> (\<exists>room' t'.
                        stealConfirmClick room k loc2
                          = Some (room', loc2\<lparr>stealModalOpen := False, tempStrategy := strategy t'\<rparr>)
                        \<and> team room' k = Some t' \<and> winnings t' = 0
                        \<and> of_int (sum_list (map chips (strategy t')))
                            = of_int (sum_list (map chips (strategy t))) + winnings t
                        \<and> totalResources t' = totalResources t))))"
proof (intro conjI impI)
  let ?i = "nat (currentRound m - 1)"
  from ms have i: "?i < length (strategy t)" "strategy t ! ?i = ms"
    by (simp_all add: at_index_Some)
  assume funded: "of_int (chips os - chips ms) \<le> winnings t"
  let ?t' = "t\<lparr>winnings := winnings t - of_int (chips os - chips ms),
               strategy := (strategy t)[?i := ms\<lparr>chips := chips os\<rparr>]\<rparr>"
  show "\<exists>room' t'.
              handleCall room k loc0 = Some (room', loc0)
              \<and> team room' k = Some t'
              \<and> winnings t' = winnings t - of_int (chips os - chips ms)
              \<and> sum_list (map chips (strategy t'))
                  = sum_list (map chips (strategy t)) + (chips os - chips ms)
              \<and> totalResources t' = totalResources t"
  proof (rule handleCall_funded [OF turn m t opp ms os funded, of loc0])
    fix room'
    assume call: "handleCall room k loc0 = Some (room', loc0)"
      and "myMatch room' k = Some (m\<lparr>roundStatus := SHOWDOWN, turnOwner := None,
           lastAction := Some \<lparr>teamId_l = k, action_l = CALL\<rparr>\<rparr>)"
      and rd: "\<And>i. team room' i = map_option (\<lambda>x. if id_t x = k then ?t' else x) (team room i)"
      and "status room' = status room"
    have tk: "team room' k = Some ?t'"
      using rd [of k] t team_id [OF t] by simp
    have sum: "sum_list (map chips (strategy ?t'))
        = sum_list (map chips (strategy t)) + (chips os - chips ms)"
      using sum_chips_update [OF i(1), of "ms\<lparr>chips := chips os\<rparr>"] i(2) by simp
    then have "totalResources ?t' = totalResources t"
      by (simp add: totalResources_def)
    with call tk sum show ?thesis
      by (intro exI [of _ room'] exI [of _ ?t']) simp
  qed
next
  let ?i = "nat (currentRound m - 1)"
  let ?needed = "of_int (chips os - chips ms) - winnings t"
  from ms have i: "?i < length (strategy t)" "strategy t ! ?i = ms"
    by (simp_all add: at_index_Some)
  assume short: "winnings t < of_int (chips os - chips ms)"
  show "\<exists>loc1 loc2.
              loc1 = loc0\<lparr>neededChips := ?needed, tempStrategy := strategy t, stealModalOpen := True\<rparr>
              \<and> handleCall room k loc0 = Some (room, loc1)
              \<and> stealClicks room k loc1 idxs = Some loc2
              \<and> sum_list (map chips (tempStrategy loc2))
                  = sum_list (map chips (strategy t)) - calculateStolenAmount room k loc2
              \<and> of_int (calculateStolenAmount room k loc2) \<le> ?needed
              \<and> (canConfirmSteal room k loc2 \<longrightarrow>
                   of_int (calculateStolenAmount room k loc2) = ?needed
                   \<and> (\<exists>room' t'.
                        stealConfirmClick room k loc2
                          = Some (room', loc2\<lparr>stealModalOpen := False, tempStrategy := strategy t'\<rparr>)
                        \<and> team room' k = Some t' \<and> winnings t' = 0
                        \<and> of_int (sum_list (map chips (strategy t')))
                            = of_int (sum_list (map chips (strategy t))) + winnings t
                        \<and> totalResources t' = totalResources t))"
  proof (rule steal_run [OF turn m t opp ms os short, of loc0 idxs])
    fix loc1 loc2
    assume call: "handleCall room k loc0 = Some (room, loc1)"
      and loc1: "loc1 = loc0\<lparr>neededChips := ?needed, tempStrategy := strategy t, stealModalOpen := True\<rparr>"
      and clicks: "stealClicks room k loc1 idxs = Some loc2"
      and inv: "stealInv (strategy t) (currentRound m) ?needed loc2"
    let ?stolen = "stolenAmount (strategy t) (tempStrategy loc2) (currentRound m)"
    from inv have open2: "stealModalOpen loc2" and nd: "neededChips loc2 = ?needed"
      and len: "length (tempStrategy loc2) = length (strategy t)"
      and le: "of_int ?stolen \<le> ?needed"
      by (simp_all add: stealInv_def)
    have calc: "calculateStolenAmount room k loc2 = ?stolen"
      by (rule calculateStolenAmount_inv [OF inv m t ms])
    have sum2: "sum_list (map chips (tempStrategy loc2)) = sum_list (map chips (strategy t)) - ?stolen"
      by (rule stealInv_sum [OF inv])
    from inv i(1) have "tempStrategy loc2 ! ?i = strategy t ! ?i \<or> currentRound m \<le> int ?i"
      unfolding stealInv_def by blast
    with ms i have cur: "tempStrategy loc2 ! ?i = ms"
      by (auto simp: at_index_Some)
    have accept: "canConfirmSteal room k loc2 \<longrightarrow>
                   of_int (calculateStolenAmount room k loc2) = ?needed
                   \<and> (\<exists>room' t'.
                        stealConfirmClick room k loc2
                          = Some (room', loc2\<lparr>stealModalOpen := False, tempStrategy := strategy t'\<rparr>)
                        \<and> team room' k = Some t' \<and> winnings t' = 0
                        \<and> of_int (sum_list (map chips (strategy t')))
                            = of_int (sum_list (map chips (strategy t))) + winnings t
                        \<and> totalResources t' = totalResources t)"
    proof
      assume ok: "canConfirmSteal room k loc2"
      let ?strat = "(tempStrategy loc2)[?i := ms\<lparr>chips := chips os\<rparr>]"
      let ?t' = "t\<lparr>winnings := 0, strategy := ?strat\<rparr>"
      from ok nd calc le have exact: "(of_int ?stolen :: rat) = ?needed"
        by (simp add: canConfirmSteal_def)
      have "sum_list (map chips ?strat) = sum_list (map chips (strategy t)) - ?stolen - chips ms + chips os"
        using sum_chips_update [of ?i "tempStrategy loc2" "ms\<lparr>chips := chips os\<rparr>"] i(1) len cur sum2
        by simp
      then have "(of_int (sum_list (map chips ?strat)) :: rat)
          = of_int (sum_list (map chips (strategy t))) - of_int ?stolen + of_int (chips os - chips ms)"
        by simp
      with exact have total: "(of_int (sum_list (map chips ?strat)) :: rat)
          = of_int (sum_list (map chips (strategy t))) + winnings t"
        by simp
      then have res: "totalResources ?t' = totalResources t"
        by (simp add: totalResources_def)
      have "\<exists>room' t'.
                        stealConfirmClick room k loc2
                          = Some (room', loc2\<lparr>stealModalOpen := False, tempStrategy := strategy t'\<rparr>)
                        \<and> team room' k = Some t' \<and> winnings t' = 0
                        \<and> of_int (sum_list (map chips (strategy t')))
                            = of_int (sum_list (map chips (strategy t))) + winnings t
                        \<and> totalResources t' = totalResources t"
      proof (rule confirmSteal_accept [OF inv m t opp ms os])
        fix room'
        assume w: "confirmSteal room k loc2
            = Some (room', loc2\<lparr>stealModalOpen := False, tempStrategy := ?strat\<rparr>)"
          "myMatch room' k = Some (m\<lparr>roundStatus := SHOWDOWN, turnOwner := None\<rparr>)"
          and rd: "\<And>i. team room' i = map_option (\<lambda>x. if id_t x = k then ?t' else x) (team room i)"
        have click: "stealConfirmClick room k loc2
            = Some (room', loc2\<lparr>stealModalOpen := False, tempStrategy := ?strat\<rparr>)"
          using ok open2 w(1) by (simp add: stealConfirmClick_def)
        have tk: "team room' k = Some ?t'"
          using rd [of k] t team_id [OF t] by simp
        from click tk total res show ?thesis
          by (intro exI [of _ room'] exI [of _ ?t']) simp
      qed
      with exact calc show "of_int (calculateStolenAmount room k loc2) = ?needed
                   \<and> (\<exists>room' t'.
                        stealConfirmClick room k loc2
                          = Some (room', loc2\<lparr>stealModalOpen := False, tempStrategy := strategy t'\<rparr>)
                        \<and> team room' k = Some t' \<and> winnings t' = 0
                        \<and> of_int (sum_list (map chips (strategy t')))
                            = of_int (sum_list (map chips (strategy t))) + winnings t
                        \<and> totalResources t' = totalResources t)"
        by simp
    qed
    from call loc1 clicks sum2 le calc accept show ?thesis
      by (intro exI [of _ loc1] exI [of _ loc2]) simp
  qed
qed

theorem call_and_steal_conserve_witness:
  "map_option totalResources (team scenarioA_decision ''A'') = Some 40
   \<and> map_option totalResources
        (teamAfter (map_option fst (handleCall scenarioA_decision ''A'' exampleLocal)) ''A'') = Some 40
   \<and> map_option totalResources (team scenarioC ''A'') = Some 30
   \<and> stealClicks scenarioC ''A''
        (exampleLocal\<lparr>neededChips := 3,
          tempStrategy := exampleStrategy 1 [0, 1, 2, 3, 4, 5, 6, 7, 8, 9] [3, 3, 3, 3, 3, 3, 3, 3, 3, 3],
          stealModalOpen := True\<rparr>) [9, 8, 7, 6]
     = Some (exampleLocal\<lparr>neededChips := 3,
          tempStrategy := exampleStrategy 1 [0, 1, 2, 3, 4, 5, 6, 7, 8, 9] [3, 3, 3, 3, 3, 3, 3, 2, 2, 2],
          stealModalOpen := True\<rparr>)
   \<and> calculateStolenAmount scenarioC ''A''
        (exampleLocal\<lparr>neededChips := 3,
          tempStrategy := exampleStrategy 1 [0, 1, 2, 3, 4, 5, 6, 7, 8, 9] [3, 3, 3, 3, 3, 3, 3, 2, 2, 2],
          stealModalOpen := True\<rparr>) = 3
   \<and> map_option totalResources
        (teamAfter (map_option fst (stealConfirmClick scenarioC ''A''
           (exampleLocal\<lparr>neededChips := 3,
             tempStrategy := exampleStrategy 1 [0, 1, 2, 3, 4, 5, 6, 7, 8, 9] [3, 3, 3, 3, 3, 3, 3, 2, 2, 2],
             stealModalOpen := True\<rparr>))) ''A'') = Some 30"
proof -
  let ?m = "exampleMatch 3 DECISION (Some ''A'') 0"
  let ?ta = "exampleTeam ''A'' 10 [0, 1, 5, 2, 3, 4, 6, 7, 8, 9] [3, 3, 2, 3, 3, 3, 3, 3, 3, 4]"
  let ?tb = "exampleTeam ''B'' 0 [9, 8, 3, 7, 6, 5, 4, 2, 1, 0] [1, 2, 5, 2, 6, 3, 3, 3, 3, 2]"
  let ?sa = "\<lparr>round_s = 3, card_s = 5, chips = 2\<rparr>"
  let ?sb = "\<lparr>round_s = 3, card_s = 3, chips = 5\<rparr>"
  have m: "myMatch scenarioA_decision ''A'' = Some ?m"
    by (simp add: scenarioA_decision_def exampleRoom_def myMatch_def myMatchIdx_def exampleMatch_def)
  have turn: "isMyTurn scenarioA_decision ''A''"
    using m by (simp add: isMyTurn_def exampleMatch_def)
  have t: "team scenarioA_decision ''A'' = Some ?ta"
    by (simp add: scenarioA_decision_def exampleRoom_def team_def exampleTeam_def)
  have opp: "opponentTeam scenarioA_decision ''A'' = Some ?tb"
    using sides(2) [OF m]
    by (simp add: scenarioA_decision_def exampleRoom_def team_def exampleTeam_def exampleMatch_def)
  have sa: "at_index (strategy ?ta) (currentRound ?m - 1) = Some ?sa"
    and sb: "at_index (strategy ?tb) (currentRound ?m - 1) = Some ?sb"
    by (simp_all add: exampleTeam_def exampleMatch_def at_index_def)
  have funded: "of_int (chips ?sb - chips ?sa) \<le> winnings ?ta"
    by (simp add: exampleTeam_def)
  have before: "totalResources ?ta = 40"
    by (simp add: totalResources_def exampleTeam_def)
  from call_and_steal_conserve [OF turn m t opp sa sb, of exampleLocal "[]"] funded
  obtain room' t' where
    "handleCall scenarioA_decision ''A'' exampleLocal = Some (room', exampleLocal)"
    "team room' ''A'' = Some t'" "totalResources t' = totalResources ?ta"
    by blast
  with before t have first: "map_option totalResources (team scenarioA_decision ''A'') = Some 40
     \<and> map_option totalResources
        (teamAfter (map_option fst (handleCall scenarioA_decision ''A'' exampleLocal)) ''A'') = Some 40"
    by (simp add: teamAfter_def)
  let ?n = "exampleMatch 5 DECISION (Some ''A'') 1"
  let ?ua = "exampleTeam ''A'' 0 [0, 1, 2, 3, 4, 5, 6, 7, 8, 9] [3, 3, 3, 3, 3, 3, 3, 3, 3, 3]"
  let ?ub = "exampleTeam ''B'' 0 [9, 8, 7, 6, 5, 4, 3, 2, 1, 0] [1, 2, 2, 2, 6, 3, 3, 3, 3, 5]"
  let ?ra = "\<lparr>round_s = 5, card_s = 4, chips = 3\<rparr>"
  let ?rb = "\<lparr>round_s = 5, card_s = 5, chips = 6\<rparr>"
  let ?L1 = "exampleLocal\<lparr>neededChips := 3,
          tempStrategy := exampleStrategy 1 [0, 1, 2, 3, 4, 5, 6, 7, 8, 9] [3, 3, 3, 3, 3, 3, 3, 3, 3, 3],
          stealModalOpen := True\<rparr>"
  let ?L2 = "exampleLocal\<lparr>neededChips := 3,
          tempStrategy := exampleStrategy 1 [0, 1, 2, 3, 4, 5, 6, 7, 8, 9] [3, 3, 3, 3, 3, 3, 3, 2, 2, 2],
          stealModalOpen := True\<rparr>"
  have n: "myMatch scenarioC ''A'' = Some ?n"
    by (simp add: scenarioC_def exampleRoom_def myMatch_def myMatchIdx_def exampleMatch_def)
  have turn2: "isMyTurn scenarioC ''A''"
    using n by (simp add: isMyTurn_def exampleMatch_def)
  have t2: "team scenarioC ''A'' = Some ?ua"
    by (simp add: scenarioC_def exampleRoom_def team_def exampleTeam_def)
  have opp2: "opponentTeam scenarioC ''A'' = Some ?ub"
    using sides(2) [OF n]
    by (simp add: scenarioC_def exampleRoom_def team_def exampleTeam_def exampleMatch_def)
  have ra: "at_index (strategy ?ua) (currentRound ?n - 1) = Some ?ra"
    and rb: "at_index (strategy ?ub) (currentRound ?n - 1) = Some ?rb"
    by (simp_all add: exampleTeam_def exampleMatch_def at_index_def)
  have short: "winnings ?ua < of_int (chips ?rb - chips ?ra)"
    by (simp add: exampleTeam_def)
  have L1: "exampleLocal\<lparr>neededChips := of_int (chips ?rb - chips ?ra) - winnings ?ua,
      tempStrategy := strategy ?ua, stealModalOpen := True\<rparr> = ?L1"
    by (simp add: exampleTeam_def)
  have before2: "totalResources ?ua = 30"
    by (simp add: totalResources_def exampleTeam_def)
  have run: "stealClicks scenarioC ''A'' ?L1 [9, 8, 7, 6] = Some ?L2"
    by code_simp
  have stolen: "calculateStolenAmount scenarioC ''A'' ?L2 = 3"
    by code_simp
  have can: "canConfirmSteal scenarioC ''A'' ?L2"
    by code_simp
  from call_and_steal_conserve [OF turn2 n t2 opp2 ra rb, of exampleLocal "[9, 8, 7, 6]"] short
  obtain loc2 where clicks: "stealClicks scenarioC ''A'' ?L1 [9, 8, 7, 6] = Some loc2"
    and acc: "canConfirmSteal scenarioC ''A'' loc2 \<longrightarrow>
                   of_int (calculateStolenAmount scenarioC ''A'' loc2)
                     = of_int (chips ?rb - chips ?ra) - winnings ?ua
                   \<and> (\<exists>room' t'.
                        stealConfirmClick scenarioC ''A'' loc2
                          = Some (room', loc2\<lparr>stealModalOpen := False, tempStrategy := strategy t'\<rparr>)
                        \<and> team room' ''A'' = Some t' \<and> winnings t' = 0
                        \<and> of_int (sum_list (map chips (strategy t')))
                            = of_int (sum_list (map chips (strategy ?ua))) + winnings ?ua
                        \<and> totalResources t' = totalResources ?ua)"
    unfolding L1 by blast
  from clicks run have loc2: "loc2 = ?L2" by simp
  from acc can obtain room'' t'' where
    "stealConfirmClick scenarioC ''A'' ?L2
       = Some (room'', ?L2\<lparr>stealModalOpen := False, tempStrategy := strategy t''\<rparr>)"
    "team room'' ''A'' = Some t''" "totalResources t'' = totalResources ?ua"
    unfolding loc2 by blast
  with before2 t2 have second: "map_option totalResources (team scenarioC ''A'') = Some 30
    \<and> map_option totalResources
        (teamAfter (map_option fst (stealConfirmClick scenarioC ''A'' ?L2)) ''A'') = Some 30"
    by (simp add: teamAfter_def)
  from first second run stolen show ?thesis by simp
qed

subsection \<open>A dialog left open while the room moves on\<close>

text \<open>
  The amount to cover, the copy of the strategy and the open flag are local state of
  the component; nothing resets them when the room changes. \<^verbatim>\<open>handleFold\<close> and
  \<^verbatim>\<open>handleCall\<close> return at once unless it is the team's turn, and \<^verbatim>\<open>handleShowdown\<close>
  unless the match is in SHOWDOWN; \<^verbatim>\<open>confirmSteal\<close> has no such check, and the buttons
  of the dialog compare the copy with the team's strategy as it is now.
\<close>

text \<open>
  C7. An accepted steal should zero the team's winnings and raise its chips of the
  current round by \<open>diff\<close>, so that both sides hold the same chips. Two members of team
  \<open>A\<close> call in scenario C, 3 chips against 6 with no winnings. The first member's steal
  is accepted: round 5 holds 6 chips and the match is in SHOWDOWN. The second member's
  dialog is still open; its buttons let it take six more chips, its confirmation is
  accepted too, and the team's strategy is replaced by its copy: round 5 is back at 3
  chips against 6, with the match in SHOWDOWN.
\<close>

theorem second_dialog_accepted:
  "map_option (stealModalOpen \<circ> snd) (handleCall scenarioC ''A'' exampleLocal) = Some True
   \<and> map_option (map chips \<circ> strategy) (teamAfter (map_option fst firstAccepted) ''A'')
       = Some [3, 3, 3, 3, 6, 1, 2, 3, 3, 3]
   \<and> map_option roundStatus (matchAfter (map_option fst firstAccepted) ''A'') = Some SHOWDOWN
   \<and> map_option (stealModalOpen \<circ> snd) secondAccepted = Some False
   \<and> map_option (map chips \<circ> strategy) (teamAfter (map_option fst secondAccepted) ''A'')
       = Some [3, 3, 3, 3, 3, 3, 3, 1, 1, 1]
   \<and> map_option (map chips \<circ> strategy) (teamAfter (map_option fst secondAccepted) ''B'')
       = Some [1, 2, 2, 2, 6, 3, 3, 3, 3, 5]
   \<and> map_option winnings (teamAfter (map_option fst secondAccepted) ''A'') = Some 0
   \<and> map_option currentRound (matchAfter (map_option fst secondAccepted) ''A'') = Some 5
   \<and> map_option roundStatus (matchAfter (map_option fst secondAccepted) ''A'') = Some SHOWDOWN"
  by code_simp

text \<open>
  C10. An accepted steal should keep the team's winnings plus the chips of all its
  rounds. In the same run the team holds 30 before the calls and 30 after the first
  acceptance, and 24 after the second: the three chips the first member moved into
  round 5 are gone, and so are the three taken from rounds 6 and 7.
\<close>

theorem second_dialog_loses_chips:
  "map_option totalResources (team scenarioC ''A'') = Some 30
   \<and> map_option totalResources (teamAfter (map_option fst firstAccepted) ''A'') = Some 30
   \<and> map_option (stealModalOpen \<circ> snd) secondAccepted = Some False
   \<and> map_option totalResources (teamAfter (map_option fst secondAccepted) ''A'') = Some 24
   \<and> map_option winnings (teamAfter (map_option fst secondAccepted) ''A'') = Some 0"
  by code_simp

end
